theory Spec2Isabelle
  imports Main "HOL-Library.Sublist"
begin

section \<open>Strings and character classes\<close>

text \<open>
  A Python \<open>str\<close> is modelled as a \<open>string\<close> (a list of \<open>char\<close>), one \<open>char\<close> per code
  point; the model therefore covers the strings whose code points are below 256. The
  character classes below are the ones Python uses on that range: \<open>str.isspace\<close> and the
  \<open>\s\<close> of \<open>re\<close> (the same set for a \<open>str\<close> pattern), the \<open>\w\<close> of \<open>re\<close> (alphanumeric
  or underscore) and \<open>str.lower\<close>.
\<close>

definition is_space :: "char \<Rightarrow> bool" where
  "is_space c =
     (let n = (of_char c :: nat)
      in (9 \<le> n \<and> n \<le> 13) \<or> (28 \<le> n \<and> n \<le> 32) \<or> n = 133 \<or> n = 160)"

definition is_word :: "char \<Rightarrow> bool" where
  "is_word c =
     (let n = (of_char c :: nat)
      in (48 \<le> n \<and> n \<le> 57) \<or> (65 \<le> n \<and> n \<le> 90) \<or> n = 95 \<or> (97 \<le> n \<and> n \<le> 122)
         \<or> n = 170 \<or> n = 178 \<or> n = 179 \<or> n = 181 \<or> n = 185 \<or> n = 186
         \<or> (188 \<le> n \<and> n \<le> 190) \<or> (192 \<le> n \<and> n \<le> 214) \<or> (216 \<le> n \<and> n \<le> 246)
         \<or> 248 \<le> n)"

definition lower_char :: "char \<Rightarrow> char" where
  "lower_char c =
     (let n = (of_char c :: nat)
      in if (65 \<le> n \<and> n \<le> 90) \<or> (192 \<le> n \<and> n \<le> 214) \<or> (216 \<le> n \<and> n \<le> 222)
         then char_of (n + 32) else c)"

definition lower :: "string \<Rightarrow> string" where
  "lower s = map lower_char s"

text \<open>\<open>sub in s\<close> on strings.\<close>

fun contains :: "string \<Rightarrow> string \<Rightarrow> bool" where
  "contains sub [] = (sub = [])"
| "contains sub (c # cs) = (prefix sub (c # cs) \<or> contains sub cs)"

text \<open>\<open>s.split(sep)\<close> for a one-character separator: never empty, the pieces may be.\<close>

fun split_on :: "char \<Rightarrow> string \<Rightarrow> string list" where
  "split_on sep [] = [[]]"
| "split_on sep (c # cs) =
     (if c = sep then [] # split_on sep cs
      else (case split_on sep cs of
              [] \<Rightarrow> [[c]]
            | w # ws \<Rightarrow> (c # w) # ws))"

text \<open>\<open>sep.join(xs)\<close>.\<close>

fun join :: "string \<Rightarrow> string list \<Rightarrow> string" where
  "join sep [] = []"
| "join sep [x] = x"
| "join sep (x # y # ys) = x @ sep @ join sep (y # ys)"

section \<open>Paths\<close>

text \<open>
  \<open>pathlib.Path\<close> on a POSIX system. The constructor splits the text at \<open>/\<close> and drops
  the empty components and the components \<open>.\<close>; a leading \<open>/\<close> is the root (two leading
  slashes, and no third, are the root \<open>//\<close>). \<open>parts\<close> is the root, if any, followed by the
  components; \<open>name\<close> is the last component (empty when there is none); \<open>stem\<close> is the name
  without its last suffix, where a dot that starts or ends the name starts no suffix.
\<close>

definition path_root :: "string \<Rightarrow> string" where
  "path_root p =
     (if prefix ''///'' p then ''/''
      else if prefix ''//'' p then ''//''
      else if prefix ''/'' p then ''/''
      else [])"

definition path_components :: "string \<Rightarrow> string list" where
  "path_components p = filter (\<lambda>s. s \<noteq> [] \<and> s \<noteq> ''.'') (split_on CHR ''/'' p)"

definition path_parts :: "string \<Rightarrow> string list" where
  "path_parts p =
     (if path_root p = [] then path_components p else path_root p # path_components p)"

definition path_name :: "string \<Rightarrow> string" where
  "path_name p = (if path_components p = [] then [] else last (path_components p))"

definition path_stem :: "string \<Rightarrow> string" where
  "path_stem p =
     (let name = path_name p;
          after = length (takeWhile (\<lambda>c. c \<noteq> CHR ''.'') (rev name));
          i = length name - after - 1
      in if CHR ''.'' \<in> set name \<and> 0 < i \<and> 0 < after then take i name else name)"

text \<open>\<open>JinjaMigrator._suggest_template_path\<close>.\<close>

definition suggest_template_path :: "string \<Rightarrow> string" where
  "suggest_template_path template_path =
     (if length (path_parts template_path) = 1 \<and> path_stem template_path \<noteq> ''base''
      then ''pages/'' @ template_path
      else if contains ''admin'' (lower template_path)
      then ''admin/'' @ path_name template_path
      else if contains ''user'' (lower template_path)
      then ''user/'' @ path_name template_path
      else template_path)"

section \<open>Dictionaries\<close>

text \<open>
  A Python \<open>dict\<close> keeps its keys in insertion order, and an assignment to a key that is
  present replaces the value where the key stands. It is modelled as an association list
  with unique keys; the order matters where the code iterates over \<open>items()\<close>.
\<close>

fun dict_set :: "('k \<times> 'v) list \<Rightarrow> 'k \<Rightarrow> 'v \<Rightarrow> ('k \<times> 'v) list" where
  "dict_set [] k v = [(k, v)]"
| "dict_set ((k', v') # kvs) k v =
     (if k' = k then (k, v) # kvs else (k', v') # dict_set kvs k v)"

text \<open>\<open>d.get(k, dflt)\<close>.\<close>

definition dict_get :: "('k \<times> 'v) list \<Rightarrow> 'k \<Rightarrow> 'v \<Rightarrow> 'v" where
  "dict_get d k dflt = (case map_of d k of None \<Rightarrow> dflt | Some v \<Rightarrow> v)"

section \<open>Block extraction\<close>

text \<open>\<open>s.strip()\<close>.\<close>

definition strip :: "string \<Rightarrow> string" where
  "strip s = rev (dropWhile is_space (rev (dropWhile is_space s)))"

text \<open>The greedy \<open>\s*\<close>, followed in each pattern below by something that is no space.\<close>

definition skip_spaces :: "string \<Rightarrow> string" where
  "skip_spaces s = dropWhile is_space s"

text \<open>
  \<open>JinjaMigrator._extract_blocks_content\<close> searches the source with
  \<^verbatim>\<open>{%\s*block\s+(\w+)\s*%}(.*?){%\s*endblock\s*(?:\s+\1)?\s*%}\<close> under \<open>re.DOTALL\<close>.

  \<open>match_block_open s\<close> is the part of the pattern before the content, tried at the
  start of \<open>s\<close>: the block name (group 1) and the text after the directive. Each greedy
  part is followed by something it cannot match (spaces by a word character or \<open>%\<close>, the
  name by a space or \<open>%\<close>), so giving characters back never finds another match.
\<close>

definition match_block_open :: "string \<Rightarrow> (string \<times> string) option" where
  "match_block_open s =
     (if prefix ''{%'' s then
        (let s1 = skip_spaces (drop 2 s) in
         if prefix ''block'' s1 then
           (let s2 = drop 5 s1;
                s3 = skip_spaces s2;
                name = takeWhile is_word s3;
                s4 = skip_spaces (dropWhile is_word s3)
            in if s3 \<noteq> s2 \<and> name \<noteq> [] \<and> prefix ''%}'' s4
               then Some (name, drop 2 s4) else None)
         else None)
      else None)"

text \<open>
  \<open>match_endblock name s\<close> is the part of the pattern after the content, tried at the
  start of \<open>s\<close> with group 1 bound to \<open>name\<close>: \<open>endblock\<close>, then either spaces and \<open>%}\<close>,
  or at least one space, the name of the block, spaces and \<open>%}\<close>. The result is the text
  after the directive.
\<close>

definition match_endblock :: "string \<Rightarrow> string \<Rightarrow> string option" where
  "match_endblock name s =
     (if prefix ''{%'' s then
        (let s1 = skip_spaces (drop 2 s) in
         if prefix ''endblock'' s1 then
           (let s2 = drop 8 s1;
                s3 = skip_spaces s2
            in if prefix ''%}'' s3 then Some (drop 2 s3)
               else if s3 \<noteq> s2 \<and> prefix name s3 then
                 (let s4 = skip_spaces (drop (length name) s3)
                  in if prefix ''%}'' s4 then Some (drop 2 s4) else None)
               else None)
         else None)
      else None)"

text \<open>
  The lazy \<open>(.*?)\<close>: the content runs to the first place where the close matches. The
  result is the content (group 2) and the text after the close.
\<close>

fun find_endblock :: "string \<Rightarrow> string \<Rightarrow> (string \<times> string) option" where
  "find_endblock name [] = None"
| "find_endblock name (c # cs) =
     (case match_endblock name (c # cs) of
        Some rest \<Rightarrow> Some ([], rest)
      | None \<Rightarrow>
          (case find_endblock name cs of
             Some (content, rest) \<Rightarrow> Some (c # content, rest)
           | None \<Rightarrow> None))"

lemma skip_spaces_length: "length (skip_spaces s) \<le> length s"
  by (simp add: skip_spaces_def length_dropWhile_le)

lemma match_block_open_length:
  assumes "match_block_open s = Some (name, rest)"
  shows "length rest < length s"
proof -
  from assms have p: "prefix ''{%'' s"
    by (auto simp: match_block_open_def split: if_splits)
  define s1 where "s1 = skip_spaces (drop 2 s)"
  define s3 where "s3 = skip_spaces (drop 5 s1)"
  define s4 where "s4 = skip_spaces (dropWhile is_word s3)"
  from assms have "rest = drop 2 s4"
    by (auto simp: match_block_open_def Let_def s1_def s3_def s4_def split: if_splits)
  moreover have "length s4 \<le> length s3"
    using skip_spaces_length [of "dropWhile is_word s3"] length_dropWhile_le [of is_word s3]
    by (simp add: s4_def)
  moreover have "length s3 \<le> length s1"
    using skip_spaces_length [of "drop 5 s1"] by (simp add: s3_def)
  moreover have "length s1 \<le> length s"
    using skip_spaces_length [of "drop 2 s"] by (simp add: s1_def)
  moreover from p have "s \<noteq> []" by auto
  ultimately show ?thesis by (cases s) auto
qed

lemma match_endblock_length:
  assumes "match_endblock name s = Some rest"
  shows "length rest < length s"
proof -
  from assms have p: "prefix ''{%'' s"
    by (auto simp: match_endblock_def split: if_splits)
  define s1 where "s1 = skip_spaces (drop 2 s)"
  define s3 where "s3 = skip_spaces (drop 8 s1)"
  define s4 where "s4 = skip_spaces (drop (length name) s3)"
  from assms have "rest = drop 2 s3 \<or> rest = drop 2 s4"
    by (auto simp: match_endblock_def Let_def s1_def s3_def s4_def split: if_splits)
  moreover have "length s4 \<le> length s3"
    using skip_spaces_length [of "drop (length name) s3"] by (simp add: s4_def)
  moreover have "length s3 \<le> length s1"
    using skip_spaces_length [of "drop 8 s1"] by (simp add: s3_def)
  moreover have "length s1 \<le> length s"
    using skip_spaces_length [of "drop 2 s"] by (simp add: s1_def)
  moreover from p have "s \<noteq> []" by auto
  ultimately show ?thesis by (cases s) auto
qed

lemma find_endblock_length:
  "find_endblock name s = Some (content, rest) \<Longrightarrow> length rest < length s"
proof (induction s arbitrary: content)
  case Nil
  then show ?case by simp
next
  case (Cons c cs)
  show ?case
  proof (cases "match_endblock name (c # cs)")
    case (Some r)
    with Cons.prems show ?thesis
      using match_endblock_length [of name "c # cs" r] by simp
  next
    case None
    with Cons.prems obtain content' where "find_endblock name cs = Some (content', rest)"
      by (auto split: option.splits)
    from Cons.IH [OF this] show ?thesis by simp
  qed
qed

text \<open>
  \<open>re.finditer\<close>: the matches from left to right, none overlapping another, as the pairs
  (group 1, group 2). A block open with no close after it is no match, and the search goes
  on one character further; after a match it goes on behind the close.
\<close>

function find_blocks :: "string \<Rightarrow> (string \<times> string) list" where
  "find_blocks [] = []"
| "find_blocks (c # cs) =
     (case match_block_open (c # cs) of
        None \<Rightarrow> find_blocks cs
      | Some (name, rest) \<Rightarrow>
          (case find_endblock name rest of
             None \<Rightarrow> find_blocks cs
           | Some (content, rest') \<Rightarrow> (name, content) # find_blocks rest'))"
  by pat_completeness auto
termination
proof (relation "measure length")
  show "wf (measure length)" by simp
next
  fix c :: char and cs :: string
  show "(cs, c # cs) \<in> measure length" by simp
next
  fix c :: char and cs :: string
  show "(cs, c # cs) \<in> measure length" by simp
next
  fix c :: char and cs x2 name rest x2a content rest'
  assume "match_block_open (c # cs) = Some x2" "(name, rest) = x2"
    "find_endblock name rest = Some x2a" "(content, rest') = x2a"
  then show "(rest', c # cs) \<in> measure length"
    using match_block_open_length [of "c # cs" name rest]
      find_endblock_length [of name rest content rest'] by auto
qed

text \<open>\<open>JinjaMigrator._extract_blocks_content\<close>: the dictionary from block names to contents.\<close>

definition extract_blocks_content :: "string \<Rightarrow> (string \<times> string) list" where
  "extract_blocks_content source_text =
     foldl (\<lambda>blocks (block_name, block_content). dict_set blocks block_name (strip block_content))
       [] (find_blocks source_text)"

section \<open>Variable substitution\<close>

text \<open>
  \<open>re.sub\<close> needs the character before the place where a match is tried, for \<open>\b\<close>: a
  pattern is a function from that character (\<open>None\<close> at the start of the text) and the
  remaining text to the length of the match there, if any.

  \<open>\b\<close> stands between a word character and a character that is none (or an end of the
  text).
\<close>

definition is_word_opt :: "char option \<Rightarrow> bool" where
  "is_word_opt c = (case c of None \<Rightarrow> False | Some x \<Rightarrow> is_word x)"

definition boundary :: "char option \<Rightarrow> char option \<Rightarrow> bool" where
  "boundary prev next = (is_word_opt prev \<noteq> is_word_opt next)"

definition head :: "string \<Rightarrow> char option" where
  "head s = (case s of [] \<Rightarrow> None | c # _ \<Rightarrow> Some c)"

text \<open>\<^verbatim>\<open>\bOLD\b\<close> at the start of \<open>s\<close>, for the escaped text \<open>old\<close>.\<close>

definition word_here :: "string \<Rightarrow> char option \<Rightarrow> string \<Rightarrow> bool" where
  "word_here old prev s =
     (old \<noteq> [] \<and> prefix old s \<and> boundary prev (head s)
      \<and> boundary (Some (last old)) (head (drop (length old) s)))"

text \<open>The first pattern, \<^verbatim>\<open>rf'\b{re.escape(old_var)}\b'\<close>.\<close>

definition pattern_simple :: "string \<Rightarrow> char option \<Rightarrow> string \<Rightarrow> nat option" where
  "pattern_simple old prev s = (if word_here old prev s then Some (length old) else None)"

text \<open>
  The second pattern, \<^verbatim>\<open>rf'{{\s*{re.escape(old_var)}\s*}}'\<close>. In an f-string \<open>{{\<close> is one
  brace, so the pattern is \<^verbatim>\<open>{\s*OLD\s*}\<close>: one brace, spaces, the name, spaces, one brace.
  The first \<open>\s*\<close> is greedy and gives spaces back one by one (\<open>k\<close> is the number it keeps).
\<close>

definition braces_attempt :: "string \<Rightarrow> string \<Rightarrow> nat \<Rightarrow> nat option" where
  "braces_attempt old rest k =
     (let tail = drop (k + length old) rest;
          spaces = length (takeWhile is_space tail)
      in if prefix old (drop k rest) \<and> prefix ''}'' (drop spaces tail)
         then Some (1 + k + length old + spaces + 1) else None)"

fun braces_backtrack :: "string \<Rightarrow> string \<Rightarrow> nat \<Rightarrow> nat option" where
  "braces_backtrack old rest 0 = braces_attempt old rest 0"
| "braces_backtrack old rest (Suc k) =
     (case braces_attempt old rest (Suc k) of
        Some n \<Rightarrow> Some n
      | None \<Rightarrow> braces_backtrack old rest k)"

definition pattern_braces :: "string \<Rightarrow> char option \<Rightarrow> string \<Rightarrow> nat option" where
  "pattern_braces old prev s =
     (if prefix ''{'' s
      then braces_backtrack old (drop 1 s) (length (takeWhile is_space (drop 1 s)))
      else None)"

text \<open>
  The third pattern, \<^verbatim>\<open>f'{{% [^%]*\\b{re.escape(old_var)}\\b[^%]*%}}'\<close>, that is
  \<^verbatim>\<open>{% [^%]*\bOLD\b[^%]*%}\<close>: a directive that has the name as a word before its first
  \<open>%\<close>. The first \<open>[^%]*\<close> is greedy and gives characters back one by one (\<open>k\<close> is the
  number it keeps); the match is the whole directive.
\<close>

definition control_attempt :: "string \<Rightarrow> string \<Rightarrow> nat \<Rightarrow> nat option" where
  "control_attempt old rest k =
     (let prev = (if k = 0 then Some CHR '' '' else Some (rest ! (k - 1)));
          tail = drop (k + length old) rest;
          others = length (takeWhile (\<lambda>c. c \<noteq> CHR ''%'') tail)
      in if word_here old prev (drop k rest) \<and> prefix ''%}'' (drop others tail)
         then Some (3 + k + length old + others + 2) else None)"

fun control_backtrack :: "string \<Rightarrow> string \<Rightarrow> nat \<Rightarrow> nat option" where
  "control_backtrack old rest 0 = control_attempt old rest 0"
| "control_backtrack old rest (Suc k) =
     (case control_attempt old rest (Suc k) of
        Some n \<Rightarrow> Some n
      | None \<Rightarrow> control_backtrack old rest k)"

definition pattern_control :: "string \<Rightarrow> char option \<Rightarrow> string \<Rightarrow> nat option" where
  "pattern_control old prev s =
     (if prefix ''{% '' s
      then control_backtrack old (drop 3 s) (length (takeWhile (\<lambda>c. c \<noteq> CHR ''%'') (drop 3 s)))
      else None)"

text \<open>
  \<open>re.sub(pattern, repl, content)\<close> for a pattern that matches no empty text and a
  replacement without backslash (which \<open>re\<close> inserts as it is): every match, from left to
  right and none overlapping another, is replaced.
\<close>

fun re_sub ::
  "(char option \<Rightarrow> string \<Rightarrow> nat option) \<Rightarrow> string \<Rightarrow> char option \<Rightarrow> string \<Rightarrow> string" where
  "re_sub pattern repl prev [] = []"
| "re_sub pattern repl prev (c # cs) =
     (case pattern prev (c # cs) of
        Some (Suc n) \<Rightarrow> repl @ re_sub pattern repl (Some ((c # cs) ! n)) (drop n cs)
      | _ \<Rightarrow> c # re_sub pattern repl (Some c) cs)"

text \<open>
  The exceptions of the program, all subclasses of \<open>Exception\<close>: \<open>jinja2.TemplateError\<close>,
  \<open>AttributeError\<close>, \<open>re.error\<close>, \<open>OSError\<close>, \<open>click.Abort\<close>. \<open>Unmodelled\<close> is no exception: it
  is the answer of the model where it does not follow the code (see
  \<open>apply_variable_mappings\<close>).
\<close>

datatype error = TemplateError | AttributeError | ReError | OSError | Abort | Unmodelled

text \<open>The inner loop of \<open>_apply_variable_mappings\<close>: the three patterns of one mapping, in turn.\<close>

definition apply_variable_mapping :: "string \<times> string \<Rightarrow> string \<Rightarrow> string" where
  "apply_variable_mapping m content =
     (case m of (old_var, new_var) \<Rightarrow>
        foldl (\<lambda>content pattern. re_sub pattern new_var None content) content
          [pattern_simple old_var, pattern_braces old_var, pattern_control old_var])"

text \<open>
  \<open>JinjaMigrator._apply_variable_mappings\<close>: the mappings in the order of the dictionary,
  each applied to the result of the one before.

  Two kinds of mapping are outside the model, and answered \<open>Unmodelled\<close>: a new name with a
  backslash, which \<open>re.sub\<close> reads as a template (it expands the escapes, or raises
  \<open>re.error\<close>), and an empty old name, whose first pattern matches the empty text (the
  program never makes one: the keys are discovered variable names).
\<close>

fun apply_variable_mappings :: "(string \<times> string) list \<Rightarrow> string \<Rightarrow> error + string" where
  "apply_variable_mappings [] content = Inr content"
| "apply_variable_mappings ((old_var, new_var) # ms) content =
     (if old_var = [] \<or> CHR 0x5C \<in> set new_var then Inl Unmodelled
      else apply_variable_mappings ms (apply_variable_mapping (old_var, new_var) content))"

section \<open>The migrator\<close>

text \<open>\<open>MigrationConfig\<close>.\<close>

record MigrationConfig =
  source_dir :: string
  target_dir :: string
  new_base_template :: string
  exclude_patterns :: "string list"
  auto_preserve_blocks :: bool
  auto_map_variables :: bool

text \<open>The dictionary that \<open>_extract_template_info\<close> returns for a template that parses.\<close>

record template_info =
  variables :: "string list"
  blocks :: "string list"
  extends :: "string option"
  includes' :: "string list"
  source :: string

text \<open>An entry of \<open>migration_log\<close>.\<close>

record log_entry =
  log_source :: string
  log_target :: string
  log_variables :: "string list"
  log_blocks :: "string list"

text \<open>
  The fields of \<open>JinjaMigrator\<close> (without the two jinja2 environments), and with them what
  a run acts on: \<open>files\<close>, the files written under the target directory (by the parts of
  their paths), and the answers of the operator still to come, \<open>choices\<close> for the prompt
  of a choice and \<open>entered\<close> for the prompt of a path.
\<close>

record JinjaMigrator =
  config :: MigrationConfig
  migration_log :: "log_entry list"
  template_mappings :: "(string \<times> string) list"
  variable_mappings :: "(string \<times> string) list"
  block_mappings :: "(string \<times> string) list"
  discovered_variables :: "string set"
  discovered_blocks :: "string set"
  files :: "string list \<rightharpoonup> string"
  choices :: "int list"
  entered :: "string list"

text \<open>
  A \<open>jinja2.Template\<close>, as \<open>Environment.get_template\<close> returns it: the compiled template,
  with its name and the name of its file. The class keeps no text of the template and has
  no attribute \<open>source\<close>, so the read \<open>template.source\<close> in \<open>_extract_template_info\<close> raises
  \<open>AttributeError\<close> for every template.
\<close>

record Template =
  template_name :: string
  template_filename :: string

definition template_source :: "Template \<Rightarrow> error + string" where
  "template_source template = Inl AttributeError"

text \<open>
  What \<open>_extract_template_info\<close> reads in the syntax tree of a template: the undeclared
  variables (\<open>meta.find_undeclared_variables\<close>), the names of the \<open>Block\<close> nodes, and for each
  \<open>Extends\<close> and \<open>Include\<close> node the value of its template expression, where it has one.
\<close>

record syntax_tree =
  undeclared_variables :: "string list"
  block_nodes :: "string list"
  extends_nodes :: "string option list"
  include_nodes :: "string option list"

text \<open>
  What the program takes from its libraries and from the file system, as parameters of
  the model: \<open>re_match pattern path\<close> is whether \<open>re.match(pattern, path)\<close> finds a match
  (or the exception it raises); \<open>get_template path\<close> is the outcome of
  \<open>source_env.get_template(path)\<close>, the template loaded from the source directory or the
  exception raised (a \<open>TemplateError\<close> for a template that is not found or has a syntax
  error); \<open>parse s\<close> is the outcome of \<open>source_env.parse(s)\<close>; \<open>write_ok fs path\<close> is
  whether, with the files \<open>fs\<close> written so far, creating the parent directories of \<open>path\<close>
  and writing the file succeed.
\<close>

record world =
  re_match :: "string \<Rightarrow> string \<Rightarrow> error + bool"
  get_template :: "string \<Rightarrow> error + Template"
  parse :: "string \<Rightarrow> error + syntax_tree"
  write_ok :: "(string list \<rightharpoonup> string) \<Rightarrow> string list \<Rightarrow> bool"

subsection \<open>Rewriting\<close>

text \<open>\<open>repr\<close> of a \<open>str\<close> and \<open>str\<close> of a \<open>dict\<close> of strings, for the last line of the output.\<close>

definition printable :: "char \<Rightarrow> bool" where
  "printable c =
     (let n = (of_char c :: nat)
      in (32 \<le> n \<and> n \<le> 126) \<or> (161 \<le> n \<and> n \<noteq> 173))"

definition hex_digit :: "nat \<Rightarrow> char" where
  "hex_digit n = ''0123456789abcdef'' ! (n mod 16)"

definition repr_char :: "char \<Rightarrow> char \<Rightarrow> string" where
  "repr_char quote c =
     (if c = CHR 0x5C then [CHR 0x5C, CHR 0x5C]
      else if c = quote then [CHR 0x5C, quote]
      else if c = CHR 0x09 then [CHR 0x5C, CHR ''t'']
      else if c = CHR 0x0A then [CHR 0x5C, CHR ''n'']
      else if c = CHR 0x0D then [CHR 0x5C, CHR ''r'']
      else if printable c then [c]
      else [CHR 0x5C, CHR ''x'', hex_digit (of_char c div 16), hex_digit (of_char c)])"

definition repr :: "string \<Rightarrow> string" where
  "repr s =
     (let quote = (if CHR 0x27 \<in> set s \<and> CHR 0x22 \<notin> set s then CHR 0x22 else CHR 0x27)
      in [quote] @ concat (map (repr_char quote) s) @ [quote])"

definition repr_dict :: "(string \<times> string) list \<Rightarrow> string" where
  "repr_dict d = ''{'' @ join '', '' (map (\<lambda>(k, v). repr k @ '': '' @ repr v) d) @ ''}''"

text \<open>
  The loop of \<open>_generate_new_template\<close> over the extracted blocks: four lines for each
  block.
\<close>

fun emit_blocks :: "JinjaMigrator \<Rightarrow> (string \<times> string) list \<Rightarrow> error + string list" where
  "emit_blocks self [] = Inr []"
| "emit_blocks self ((block_name, block_content) # original_blocks) =
     (let new_block_name = dict_get (block_mappings self) block_name block_name in
      case apply_variable_mappings (variable_mappings self) block_content of
        Inl e \<Rightarrow> Inl e
      | Inr migrated_content \<Rightarrow>
          (case emit_blocks self original_blocks of
             Inl e \<Rightarrow> Inl e
           | Inr lines \<Rightarrow>
               Inr ([''{% block '' @ new_block_name @ '' %}'', migrated_content,
                     ''{% endblock %}'', []] @ lines)))"

text \<open>\<open>JinjaMigrator._generate_new_template\<close>.\<close>

definition generate_new_template :: "JinjaMigrator \<Rightarrow> template_info \<Rightarrow> string \<Rightarrow> error + string" where
  "generate_new_template self info template_path =
     (let base = new_base_template (config self);
          lines0 =
            (if base \<noteq> [] then [''{% extends '' @ [CHR 0x27] @ base @ [CHR 0x27] @ '' %}'', []]
             else [])
      in case emit_blocks self (extract_blocks_content (source info)) of
           Inl e \<Rightarrow> Inl e
         | Inr block_lines \<Rightarrow>
             Inr (join [CHR 0x0A]
                   (lines0 @ block_lines
                    @ [''<!-- Migrated template -->'',
                       ''<!-- Original: '' @ template_path @ '' -->'',
                       ''<!-- Variables: '' @ join '', '' (variables info) @ '' -->'']
                    @ (if variable_mappings self \<noteq> []
                       then [''<!-- Variable mappings: '' @ repr_dict (variable_mappings self)
                             @ '' -->'']
                       else []))))"

subsection \<open>The parser's view of blocks\<close>

text \<open>
  Modelled from the spec: the block declarations that the Template Parser recognises
  (section 4.1 of the specification). In the program the parser is jinja2
  (\<open>Environment.parse\<close> and \<open>find_all('Block')\<close>), which is not part of the sources. The
  model covers the block structure only: a block declaration is \<^verbatim>\<open>{% block NAME %}\<close>, its
  close \<^verbatim>\<open>{% endblock %}\<close> or \<^verbatim>\<open>{% endblock NAME %}\<close>, each with optional whitespace-control
  signs (\<^verbatim>\<open>{%-\<close>, \<^verbatim>\<open>-%}\<close>, \<^verbatim>\<open>{%+\<close>); declarations nest; the names are reported in the order
  of the declarations, each once; a close without a declaration, a close that names
  another block than the innermost one, and a declaration that is never closed are parse
  errors. Other directives are passed over.
\<close>

datatype directive = Block_open string | Block_close "string option"

datatype parse_error = Unclosed_block string | Unexpected_endblock | Mismatched_endblock string

text \<open>Modelled from the spec: a whitespace-control sign at either end of a directive is passed over.\<close>

definition unsign :: "string \<Rightarrow> string" where
  "unsign s = (if prefix ''-'' s \<or> prefix ''+'' s then drop 1 s else s)"

text \<open>Modelled from the spec: the end of a directive, after optional spaces and an optional sign.\<close>

definition tag_end :: "string \<Rightarrow> bool" where
  "tag_end s = prefix ''%}'' (unsign (skip_spaces s))"

text \<open>Modelled from the spec: the block declaration or close that starts at the start of \<open>s\<close>, if any.\<close>

definition directive_at :: "string \<Rightarrow> directive option" where
  "directive_at s =
     (if prefix ''{%'' s then
        (let s1 = skip_spaces (unsign (drop 2 s));
             keyword = takeWhile is_word s1;
             s2 = dropWhile is_word s1;
             s3 = skip_spaces s2;
             name = takeWhile is_word s3;
             s4 = dropWhile is_word s3
         in if keyword = ''block'' \<and> name \<noteq> [] \<and> tag_end s4 then Some (Block_open name)
            else if keyword = ''endblock'' \<and> tag_end s2 then Some (Block_close None)
            else if keyword = ''endblock'' \<and> name \<noteq> [] \<and> tag_end s4
            then Some (Block_close (Some name))
            else None)
      else None)"

text \<open>
  Modelled from the spec: the walk over the text, with the stack of the blocks that are
  open and the names seen so far.
\<close>

fun parse_blocks_from :: "string list \<Rightarrow> string list \<Rightarrow> string \<Rightarrow> parse_error + string list" where
  "parse_blocks_from stack seen [] =
     (case stack of [] \<Rightarrow> Inr seen | name # _ \<Rightarrow> Inl (Unclosed_block name))"
| "parse_blocks_from stack seen (c # cs) =
     (case directive_at (c # cs) of
        None \<Rightarrow> parse_blocks_from stack seen cs
      | Some (Block_open name) \<Rightarrow>
          parse_blocks_from (name # stack) (if name \<in> set seen then seen else seen @ [name]) cs
      | Some (Block_close closing) \<Rightarrow>
          (case stack of
             [] \<Rightarrow> Inl Unexpected_endblock
           | name # stack' \<Rightarrow>
               if closing = None \<or> closing = Some name then parse_blocks_from stack' seen cs
               else Inl (Mismatched_endblock name)))"

text \<open>Modelled from the spec: the block names of \<open>parse(T).blocks\<close>, or the parse error.\<close>

definition parse_blocks :: "string \<Rightarrow> parse_error + string list" where
  "parse_blocks source_text = parse_blocks_from [] [] source_text"

subsection \<open>Migrating one template\<close>

text \<open>\<open>JinjaMigrator._should_exclude\<close>: the patterns in turn, up to the first that matches.\<close>

fun matches_any :: "world \<Rightarrow> string list \<Rightarrow> string \<Rightarrow> error + bool" where
  "matches_any w [] template_path = Inr False"
| "matches_any w (pattern # patterns) template_path =
     (case re_match w pattern template_path of
        Inl e \<Rightarrow> Inl e
      | Inr True \<Rightarrow> Inr True
      | Inr False \<Rightarrow> matches_any w patterns template_path)"

definition should_exclude :: "world \<Rightarrow> JinjaMigrator \<Rightarrow> string \<Rightarrow> error + bool" where
  "should_exclude w self template_path =
     matches_any w (exclude_patterns (config self)) template_path"

text \<open>
  \<open>JinjaMigrator._extract_template_info\<close>. In the \<open>try\<close> block the template is loaded, its
  attribute \<open>source\<close> is read and the text read is parsed; the first exception ends the
  block. The facts of a template that gets through are added to the discovered sets
  (\<open>extends\<close> is the value of the last \<open>Extends\<close> node that has one). A \<open>TemplateError\<close> is
  the only exception that the method catches, and gives the empty dictionary (\<open>None\<close>
  here); any other exception goes on to the caller.
\<close>

definition extract_template_info ::
  "world \<Rightarrow> JinjaMigrator \<Rightarrow> string \<Rightarrow> (error + template_info option) \<times> JinjaMigrator" where
  "extract_template_info w self template_path =
     (let attempt =
        (case get_template w template_path of
           Inl e \<Rightarrow> Inl e
         | Inr template \<Rightarrow>
             (case template_source template of
                Inl e \<Rightarrow> Inl e
              | Inr source_text \<Rightarrow>
                  (case parse w source_text of
                     Inl e \<Rightarrow> Inl e
                   | Inr ast \<Rightarrow> Inr (source_text, ast))))
      in case attempt of
           Inr (source_text, ast) \<Rightarrow>
             (let info =
                \<lparr>variables = undeclared_variables ast, blocks = block_nodes ast,
                 extends = (case List.map_filter id (extends_nodes ast) of
                              [] \<Rightarrow> None
                            | found \<Rightarrow> Some (last found)),
                 includes' = List.map_filter id (include_nodes ast),
                 source = source_text\<rparr>
              in (Inr (Some info),
                  self\<lparr>discovered_variables := discovered_variables self \<union> set (variables info),
                       discovered_blocks := discovered_blocks self \<union> set (blocks info)\<rparr>))
         | Inl TemplateError \<Rightarrow> (Inr None, self)
         | Inl e \<Rightarrow> (Inl e, self))"

text \<open>
  \<open>JinjaMigrator._interactive_template_mapping\<close>: the mapped path if there is one;
  otherwise the operator's choice, 1 for the same path, 2 for the suggested path, 3 for a
  path that is then entered, anything else to skip the template (\<open>None\<close>). A prompt with no
  answer left raises \<open>click.Abort\<close>.
\<close>

definition interactive_template_mapping ::
  "JinjaMigrator \<Rightarrow> string \<Rightarrow> (error + string option) \<times> JinjaMigrator" where
  "interactive_template_mapping self template_path =
     (case map_of (template_mappings self) template_path of
        Some new_path \<Rightarrow> (Inr (Some new_path), self)
      | None \<Rightarrow>
          (let suggested_path = suggest_template_path template_path in
           case choices self of
             [] \<Rightarrow> (Inl Abort, self)
           | choice # later \<Rightarrow>
               (let self1 = self\<lparr>choices := later\<rparr>;
                    keep = (\<lambda>s new_path.
                      (Inr (Some new_path),
                       s\<lparr>template_mappings :=
                           dict_set (template_mappings s) template_path new_path\<rparr>))
                in if choice = 1 then keep self1 template_path
                   else if choice = 2 then keep self1 suggested_path
                   else if choice = 3 then
                     (case entered self1 of
                        [] \<Rightarrow> (Inl Abort, self1)
                      | new_path # remaining \<Rightarrow> keep (self1\<lparr>entered := remaining\<rparr>) new_path)
                   else (Inr None, self1))))"

text \<open>
  \<open>Path(self.config.target_dir) / target_path\<close>, by its parts: an absolute target path
  stands for itself.
\<close>

definition full_output_path :: "string \<Rightarrow> string \<Rightarrow> string list" where
  "full_output_path dir target_path =
     (if path_root target_path \<noteq> [] then path_parts target_path
      else path_parts dir @ path_components target_path)"

text \<open>
  \<open>JinjaMigrator.migrate_template\<close>. Every exception is caught and gives \<open>False\<close>; what was
  changed before it stays changed.
\<close>

definition migrate_template :: "world \<Rightarrow> JinjaMigrator \<Rightarrow> string \<Rightarrow> bool \<times> JinjaMigrator" where
  "migrate_template w self template_path =
     (case should_exclude w self template_path of
        Inl e \<Rightarrow> (False, self)
      | Inr True \<Rightarrow> (True, self)
      | Inr False \<Rightarrow>
          (case interactive_template_mapping self template_path of
             (Inl e, self1) \<Rightarrow> (False, self1)
           | (Inr None, self1) \<Rightarrow> (True, self1)
           | (Inr (Some target_path), self1) \<Rightarrow>
               (case extract_template_info w self1 template_path of
                  (Inl e, self2) \<Rightarrow> (False, self2)
                | (Inr None, self2) \<Rightarrow> (False, self2)
                | (Inr (Some info), self2) \<Rightarrow>
                    (case generate_new_template self2 info template_path of
                       Inl e \<Rightarrow> (False, self2)
                     | Inr new_content \<Rightarrow>
                         (let path = full_output_path (target_dir (config self2)) target_path in
                          if write_ok w (files self2) path
                          then (True,
                                self2\<lparr>files := (files self2)(path \<mapsto> new_content),
                                      migration_log := migration_log self2 @
                                        [\<lparr>log_source = template_path, log_target = target_path,
                                          log_variables = variables info,
                                          log_blocks = blocks info\<rparr>]\<rparr>)
                          else (False, self2))))))"

subsection \<open>The batch\<close>

text \<open>
  \<open>JinjaMigrator.analyze_all_templates\<close>, which \<open>main\<close> calls before any mapping is made and
  before the migration loop: the facts of every template that is not excluded are
  extracted, for the discovered sets. The method has no handler: an exception of
  \<open>_should_exclude\<close> or of \<open>_extract_template_info\<close> ends it, and \<open>main\<close> with it.
\<close>

fun analyze_all_templates :: "world \<Rightarrow> JinjaMigrator \<Rightarrow> string list \<Rightarrow> error + JinjaMigrator" where
  "analyze_all_templates w self [] = Inr self"
| "analyze_all_templates w self (template_path # templates) =
     (case should_exclude w self template_path of
        Inl e \<Rightarrow> Inl e
      | Inr True \<Rightarrow> analyze_all_templates w self templates
      | Inr False \<Rightarrow>
          (case extract_template_info w self template_path of
             (Inl e, self1) \<Rightarrow> Inl e
           | (Inr info, self1) \<Rightarrow> analyze_all_templates w self1 templates))"

text \<open>
  The migration loop of \<open>main\<close>, with its two counters; \<open>auto\<close> is the \<open>--auto\<close> flag, under
  which the suggested path is mapped before each template is migrated.
\<close>

fun migration_loop ::
  "world \<Rightarrow> bool \<Rightarrow> JinjaMigrator \<Rightarrow> string list \<Rightarrow> nat \<Rightarrow> nat \<Rightarrow> nat \<times> nat \<times> JinjaMigrator" where
  "migration_loop w auto self [] successful failed = (successful, failed, self)"
| "migration_loop w auto self (template_path # templates) successful failed =
     (let self1 =
        (if auto
         then self\<lparr>template_mappings :=
                dict_set (template_mappings self) template_path
                  (suggest_template_path template_path)\<rparr>
         else self)
      in case migrate_template w self1 template_path of
           (True, self2) \<Rightarrow> migration_loop w auto self2 templates (successful + 1) failed
         | (False, self2) \<Rightarrow> migration_loop w auto self2 templates successful (failed + 1))"

subsection \<open>Automatic mappings\<close>

text \<open>The built-in tables of \<open>_auto_map_variables\<close> and \<open>_interactive_block_mapping\<close>.\<close>

definition auto_mappings :: "(string \<times> string) list" where
  "auto_mappings =
     [(''user_name'', ''username''), (''user_email'', ''email''), (''page_title'', ''title''),
      (''current_user'', ''user''), (''nav_items'', ''navigation'')]"

definition auto_block_mappings :: "(string \<times> string) list" where
  "auto_block_mappings =
     [(''content'', ''main_content''), (''sidebar'', ''aside_content''),
      (''page_scripts'', ''scripts''), (''page_styles'', ''styles'')]"

text \<open>
  The loop of both: every entry of the table whose old name is discovered is assigned in
  the mapping.
\<close>

fun map_discovered ::
  "string set \<Rightarrow> (string \<times> string) list \<Rightarrow> (string \<times> string) list \<Rightarrow> (string \<times> string) list" where
  "map_discovered discovered [] mappings = mappings"
| "map_discovered discovered ((old_name, new_name) # table) mappings =
     map_discovered discovered table
       (if old_name \<in> discovered then dict_set mappings old_name new_name else mappings)"

text \<open>\<open>JinjaMigrator._auto_map_variables\<close>.\<close>

definition auto_map_variables :: "JinjaMigrator \<Rightarrow> JinjaMigrator" where
  "auto_map_variables self =
     self\<lparr>variable_mappings :=
       map_discovered (discovered_variables self) auto_mappings (variable_mappings self)\<rparr>"

text \<open>
  The automatic part of \<open>JinjaMigrator._interactive_block_mapping\<close>: nothing when no block
  is discovered, the built-in table when \<open>auto_preserve_blocks\<close> is set. The prompts for
  manual changes that follow it in the method are not part of the model.
\<close>

definition auto_map_blocks :: "JinjaMigrator \<Rightarrow> JinjaMigrator" where
  "auto_map_blocks self =
     (if discovered_blocks self = {} then self
      else if auto_preserve_blocks (config self)
      then self\<lparr>block_mappings :=
             map_discovered (discovered_blocks self) auto_block_mappings (block_mappings self)\<rparr>
      else self)"

subsection \<open>Templates routed away\<close>

text \<open>
  A template is routed away before it is rewritten when its path matches an exclusion
  pattern, or when it has no mapped path and the operator's next choice is none of 1, 2
  and 3. \<open>routed_away_count\<close> counts the templates routed away in a run of the loop.
\<close>

definition routed_away :: "world \<Rightarrow> JinjaMigrator \<Rightarrow> string \<Rightarrow> bool" where
  "routed_away w self template_path =
     (case should_exclude w self template_path of
        Inl e \<Rightarrow> False
      | Inr True \<Rightarrow> True
      | Inr False \<Rightarrow>
          map_of (template_mappings self) template_path = None
          \<and> (case choices self of [] \<Rightarrow> False | choice # later \<Rightarrow> choice \<noteq> 1 \<and> choice \<noteq> 2 \<and> choice \<noteq> 3))"

fun routed_away_count :: "world \<Rightarrow> bool \<Rightarrow> JinjaMigrator \<Rightarrow> string list \<Rightarrow> nat" where
  "routed_away_count w auto self [] = 0"
| "routed_away_count w auto self (template_path # templates) =
     (let self1 =
        (if auto
         then self\<lparr>template_mappings :=
                dict_set (template_mappings self) template_path
                  (suggest_template_path template_path)\<rparr>
         else self)
      in (if routed_away w self1 template_path then 1 else 0)
         + routed_away_count w auto (snd (migrate_template w self1 template_path)) templates)"

section \<open>Words of a text\<close>

text \<open>
  The notions in which the properties of the variable substitution are stated. The
  \<open>tokens\<close> of a text are its maximal runs of word characters, each one token, and its
  other characters, each a token of its own; their concatenation is the text. An
  identifier is a non-empty text of word characters. \<open>rename (old, new)\<close> replaces the token
  \<open>old\<close> by \<open>new\<close> and keeps every other token; \<open>rename_all\<close> does so for the mappings of
  a dictionary, one after the other.
\<close>

function tokens :: "string \<Rightarrow> string list" where
  "tokens [] = []"
| "tokens (c # cs) =
     (if is_word c then (c # takeWhile is_word cs) # tokens (dropWhile is_word cs)
      else [c] # tokens cs)"
  by pat_completeness auto
termination
  by (relation "measure length") (auto simp: length_dropWhile_le less_Suc_eq_le)

definition is_identifier :: "string \<Rightarrow> bool" where
  "is_identifier s = (s \<noteq> [] \<and> list_all is_word s)"

definition rename :: "string \<times> string \<Rightarrow> string \<Rightarrow> string" where
  "rename m t = (if t = fst m then snd m else t)"

definition rename_all :: "(string \<times> string) list \<Rightarrow> string \<Rightarrow> string" where
  "rename_all ms t = foldl (\<lambda>t m. rename m t) t ms"

section \<open>Flat templates\<close>









section \<open>Example data\<close>

text \<open>
  A configuration, a migrator before any mapping is made, and a world in which the path
  \<open>old_backup.html\<close> is excluded, the template \<open>broken.html\<close> has a syntax error and every
  other template is loaded, and in which every text parses to one block and one variable;
  then the same migrator with one variable renamed and two answers of the operator to come,
  and with mappings made by hand.
\<close>

definition example_config :: MigrationConfig where
  "example_config =
     \<lparr>source_dir = ''templates'', target_dir = ''new_templates'', new_base_template = ''base.html'',
      exclude_patterns = [''.*_backup[.]html$''], auto_preserve_blocks = True,
      auto_map_variables = False\<rparr>"

definition example_migrator :: JinjaMigrator where
  "example_migrator =
     \<lparr>config = example_config, migration_log = [], template_mappings = [],
      variable_mappings = [], block_mappings = [], discovered_variables = {},
      discovered_blocks = {}, files = Map.empty, choices = [], entered = []\<rparr>"

definition example_world :: world where
  "example_world =
     \<lparr>re_match = (\<lambda>pattern path. Inr (path = ''old_backup.html'')),
      get_template = (\<lambda>path.
        if path = ''broken.html'' then Inl TemplateError
        else Inr \<lparr>template_name = path, template_filename = ''templates/'' @ path\<rparr>),
      parse = (\<lambda>source_text.
        Inr \<lparr>undeclared_variables = [''page_title''], block_nodes = [''content''],
             extends_nodes = [], include_nodes = []\<rparr>),
      write_ok = (\<lambda>fs path. True)\<rparr>"

definition example_operator :: JinjaMigrator where
  "example_operator =
     example_migrator\<lparr>variable_mappings := [(''page_title'', ''title'')], choices := [2, 4]\<rparr>"

definition example_overrides :: JinjaMigrator where
  "example_overrides =
     example_migrator\<lparr>variable_mappings := [(''user_name'', ''login''), (''role'', ''group'')],
       block_mappings := [(''content'', ''body'')],
       discovered_variables := {''user_name'', ''role'', ''nav_items''},
       discovered_blocks := {''content'', ''footer''}\<rparr>"

text \<open>The example migrator with one variable renamed.\<close>

definition example_renaming :: JinjaMigrator where
  "example_renaming = example_migrator\<lparr>variable_mappings := [(''user_name'', ''username'')]\<rparr>"



section \<open>Target-path suggestion\<close>

lemma split_on_no_sep: "sep \<notin> set s \<Longrightarrow> split_on sep s = [s]"
  by (induction s) auto

lemma path_parts_plain:
  assumes "CHR ''/'' \<notin> set p" "p \<noteq> []" "p \<noteq> ''.''"
  shows "path_parts p = [p]"
proof -
  have "path_root p = []"
    using assms(1) by (cases p) (auto simp: path_root_def)
  moreover have "path_components p = [p]"
    using assms by (simp add: path_components_def split_on_no_sep)
  ultimately show ?thesis
    by (simp add: path_parts_def)
qed

lemma char_eq_char_of_iff: "(c = char_of (n::nat)) = (of_char c = n mod 256)"
  using char_of_eq_iff [of n c] by (auto simp: take_bit_eq_mod)

lemmas path_eval =
  suggest_template_path_def path_parts_def path_root_def path_components_def path_name_def
  path_stem_def lower_def lower_char_def Let_def char_eq_char_of_iff

text \<open>
  C5 (as stated): \<open>profile_user.html\<close> is suggested \<open>user/profile_user.html\<close>. The code
  does not do that.
\<close>

theorem C5_profile_user_counterexample:
  "suggest_template_path ''profile_user.html'' \<noteq> ''user/profile_user.html''"
  by (simp add: path_eval)

text \<open>
  C5 (amended): \<open>profile_user.html\<close> has no directory component and is not the base
  template, so the first rule wins and the suggestion is \<open>pages/profile_user.html\<close>; the
  \<open>user\<close> rule gives \<open>user/profile_user.html\<close> for a path with a directory component,
  such as \<open>accounts/profile_user.html\<close>.
\<close>

theorem C5_profile_user_pages:
  "suggest_template_path ''profile_user.html'' = ''pages/profile_user.html''
   \<and> suggest_template_path ''accounts/profile_user.html'' = ''user/profile_user.html''"
  by (simp add: path_eval)

text \<open>
  C6: the rules of the target-path suggestion are tried in a fixed order and the first
  that matches wins: a path with no directory component that is not the base template
  goes under \<open>pages/\<close>, whatever else it contains; otherwise a path containing \<open>admin\<close>
  (in any case) goes under \<open>admin/\<close>, also when it contains \<open>user\<close>; otherwise a path
  containing \<open>user\<close> goes under \<open>user/\<close>; otherwise the path is unchanged.
  \<open>dashboard.html\<close> gives \<open>pages/dashboard.html\<close> and \<open>admin/settings.html\<close> gives
  \<open>admin/settings.html\<close>.
\<close>

theorem C6_rule_order:
  "(CHR ''/'' \<notin> set p \<and> p \<noteq> [] \<and> p \<noteq> ''.'' \<and> path_stem p \<noteq> ''base''
      \<longrightarrow> suggest_template_path p = ''pages/'' @ p)
   \<and> (\<not> (length (path_parts p) = 1 \<and> path_stem p \<noteq> ''base'') \<and> contains ''admin'' (lower p)
      \<longrightarrow> suggest_template_path p = ''admin/'' @ path_name p)
   \<and> (\<not> (length (path_parts p) = 1 \<and> path_stem p \<noteq> ''base'') \<and> \<not> contains ''admin'' (lower p)
        \<and> contains ''user'' (lower p)
      \<longrightarrow> suggest_template_path p = ''user/'' @ path_name p)
   \<and> (\<not> (length (path_parts p) = 1 \<and> path_stem p \<noteq> ''base'') \<and> \<not> contains ''admin'' (lower p)
        \<and> \<not> contains ''user'' (lower p)
      \<longrightarrow> suggest_template_path p = p)
   \<and> suggest_template_path ''dashboard.html'' = ''pages/dashboard.html''
   \<and> suggest_template_path ''admin/settings.html'' = ''admin/settings.html''"
proof -
  have "suggest_template_path p = ''pages/'' @ p"
    if "CHR ''/'' \<notin> set p" "p \<noteq> []" "p \<noteq> ''.''" "path_stem p \<noteq> ''base''"
    using that path_parts_plain [of p] by (simp add: suggest_template_path_def)
  moreover have "suggest_template_path ''dashboard.html'' = ''pages/dashboard.html''"
    by (simp add: path_eval)
  moreover have "suggest_template_path ''admin/settings.html'' = ''admin/settings.html''"
    by (simp add: path_eval)
  ultimately show ?thesis
    by (simp add: suggest_template_path_def)
qed

theorem C6_rule_order_witness:
  "suggest_template_path ''admin_user.html'' = ''pages/admin_user.html''
   \<and> suggest_template_path ''Users/ADMIN_list.html'' = ''admin/ADMIN_list.html''
   \<and> suggest_template_path ''shop/User_card.html'' = ''user/User_card.html''
   \<and> suggest_template_path ''base.html'' = ''base.html''"
proof -
  have "suggest_template_path ''admin_user.html'' = ''pages/admin_user.html''"
    using C6_rule_order [of "''admin_user.html''"] by (simp add: path_eval)
  moreover have "suggest_template_path ''Users/ADMIN_list.html'' = ''admin/ADMIN_list.html''"
    using C6_rule_order [of "''Users/ADMIN_list.html''"] by (simp add: path_eval)
  moreover have "suggest_template_path ''shop/User_card.html'' = ''user/User_card.html''"
    using C6_rule_order [of "''shop/User_card.html''"] by (simp add: path_eval)
  moreover have "suggest_template_path ''base.html'' = ''base.html''"
    using C6_rule_order [of "''base.html''"] by (simp add: path_eval)
  ultimately show ?thesis by simp
qed

section \<open>Automatic mappings\<close>

lemma map_of_dict_set: "map_of (dict_set d k v) = (map_of d)(k \<mapsto> v)"
  by (induction d k v rule: dict_set.induct) auto

lemma map_of_map_discovered:
  "distinct (map fst table) \<Longrightarrow>
   map_of (map_discovered D table m) k =
     (if k \<in> D \<and> k \<in> fst ` set table then map_of table k else map_of m k)"
proof (induction D table m rule: map_discovered.induct)
  case (1 D m)
  then show ?case by simp
next
  case (2 D old_name new_name table m)
  then show ?case
    by (auto simp: map_of_dict_set image_iff)
qed

text \<open>
  C2 (as stated): the automatic pass never overwrites an existing mapping. The code
  assigns without looking: an explicit mapping of a discovered name of the built-in table
  is replaced.
\<close>

theorem C2_auto_pass_overwrites_counterexample:
  "map_of (variable_mappings example_overrides) ''user_name'' = Some ''login''
   \<and> map_of (variable_mappings (auto_map_variables example_overrides)) ''user_name'' = Some ''username''
   \<and> map_of (block_mappings example_overrides) ''content'' = Some ''body''
   \<and> map_of (block_mappings (auto_map_blocks example_overrides)) ''content'' = Some ''main_content''"
  by (simp add: example_overrides_def example_migrator_def example_config_def auto_map_variables_def
      auto_map_blocks_def auto_mappings_def auto_block_mappings_def)

text \<open>
  C2 (amended): the automatic pass assigns the built-in new name to every name of the
  built-in table that is discovered (for blocks: when \<open>auto_preserve_blocks\<close> is set),
  replacing the mapping the name had; every other key keeps its mapping, or stays
  unmapped.
\<close>

theorem C2_auto_pass_assigns_discovered:
  "map_of (variable_mappings (auto_map_variables self)) k =
     (if k \<in> discovered_variables self \<and> k \<in> fst ` set auto_mappings
      then map_of auto_mappings k else map_of (variable_mappings self) k)
   \<and> map_of (block_mappings (auto_map_blocks self)) k =
     (if auto_preserve_blocks (config self) \<and> k \<in> discovered_blocks self
         \<and> k \<in> fst ` set auto_block_mappings
      then map_of auto_block_mappings k else map_of (block_mappings self) k)"
proof -
  have "distinct (map fst auto_mappings)" "distinct (map fst auto_block_mappings)"
    by (simp_all add: auto_mappings_def auto_block_mappings_def)
  then show ?thesis
    by (auto simp: auto_map_variables_def auto_map_blocks_def map_of_map_discovered)
qed

theorem C2_auto_pass_assigns_discovered_witness:
  "map_of (variable_mappings (auto_map_variables example_overrides)) ''role'' = Some ''group''
   \<and> map_of (variable_mappings (auto_map_variables example_overrides)) ''nav_items'' = Some ''navigation''
   \<and> map_of (variable_mappings (auto_map_variables example_overrides)) ''user_name'' = Some ''username''
   \<and> map_of (variable_mappings (auto_map_variables example_overrides)) ''page_title'' = None
   \<and> map_of (block_mappings (auto_map_blocks example_overrides)) ''content'' = Some ''main_content''
   \<and> map_of (block_mappings (auto_map_blocks example_overrides)) ''footer'' = None"
  using C2_auto_pass_assigns_discovered [of example_overrides "''role''"]
    C2_auto_pass_assigns_discovered [of example_overrides "''nav_items''"]
    C2_auto_pass_assigns_discovered [of example_overrides "''user_name''"]
    C2_auto_pass_assigns_discovered [of example_overrides "''page_title''"]
    C2_auto_pass_assigns_discovered [of example_overrides "''content''"]
    C2_auto_pass_assigns_discovered [of example_overrides "''footer''"]
  by (simp add: example_overrides_def example_migrator_def example_config_def auto_mappings_def
      auto_block_mappings_def)

section \<open>Block extraction and the parser\<close>

lemma space_not_word: "is_space c \<Longrightarrow> \<not> is_word c"
  by (auto simp: is_space_def is_word_def Let_def)

lemma suffix_skip_spaces: "suffix (skip_spaces s) s"
  by (simp add: skip_spaces_def suffix_dropWhile)

lemma match_endblock_suffix:
  assumes "match_endblock name s = Some rest"
  shows "suffix rest s"
proof -
  define s1 where "s1 = skip_spaces (drop 2 s)"
  define s3 where "s3 = skip_spaces (drop 8 s1)"
  define s4 where "s4 = skip_spaces (drop (length name) s3)"
  from assms have "rest = drop 2 s3 \<or> rest = drop 2 s4"
    by (auto simp: match_endblock_def Let_def s1_def s3_def s4_def split: if_splits)
  moreover have "suffix s4 s3"
    unfolding s4_def by (meson suffix_skip_spaces suffix_drop suffix_order.trans)
  moreover have "suffix s3 s1"
    unfolding s3_def by (meson suffix_skip_spaces suffix_drop suffix_order.trans)
  moreover have "suffix s1 s"
    unfolding s1_def by (meson suffix_skip_spaces suffix_drop suffix_order.trans)
  ultimately show ?thesis
    by (meson suffix_drop suffix_order.trans)
qed

lemma match_block_open_suffix:
  assumes "match_block_open s = Some (name, rest)"
  shows "suffix rest s"
proof -
  define s1 where "s1 = skip_spaces (drop 2 s)"
  define s3 where "s3 = skip_spaces (drop 5 s1)"
  define s4 where "s4 = skip_spaces (dropWhile is_word s3)"
  from assms have "rest = drop 2 s4"
    by (auto simp: match_block_open_def Let_def s1_def s3_def s4_def split: if_splits)
  moreover have "suffix s4 s3"
    unfolding s4_def by (meson suffix_skip_spaces suffix_dropWhile suffix_order.trans)
  moreover have "suffix s3 s1"
    unfolding s3_def by (meson suffix_skip_spaces suffix_drop suffix_order.trans)
  moreover have "suffix s1 s"
    unfolding s1_def by (meson suffix_skip_spaces suffix_drop suffix_order.trans)
  ultimately show ?thesis
    by (meson suffix_drop suffix_order.trans)
qed

lemma find_endblock_located:
  "find_endblock name s = Some (content, rest) \<Longrightarrow>
     \<exists>t. suffix t s \<and> match_endblock name t = Some rest"
proof (induction s arbitrary: content)
  case Nil
  then show ?case by simp
next
  case (Cons c cs)
  show ?case
  proof (cases "match_endblock name (c # cs)")
    case (Some r)
    with Cons.prems have "r = rest" by simp
    with Some show ?thesis by (metis suffix_order.refl)
  next
    case None
    with Cons.prems obtain content' where "find_endblock name cs = Some (content', rest)"
      by (auto split: option.splits)
    from Cons.IH [OF this] show ?thesis
      by (meson suffix_ConsI)
  qed
qed

lemma find_endblock_suffix:
  "find_endblock name s = Some (content, rest) \<Longrightarrow> suffix rest s"
  by (meson find_endblock_located match_endblock_suffix suffix_order.trans)

lemma dict_set_keys: "fst ` set (dict_set d k v) = insert k (fst ` set d)"
  by (induction d k v rule: dict_set.induct) auto

lemma fold_dict_set_keys:
  "fst ` set (foldl (\<lambda>blocks (n, c). dict_set blocks n (f c)) d xs) = fst ` set d \<union> fst ` set xs"
proof (induction xs arbitrary: d)
  case Nil
  then show ?case by simp
next
  case (Cons x xs)
  obtain n c where x: "x = (n, c)" by (cases x)
  show ?case by (simp add: x Cons.IH dict_set_keys)
qed

lemma extract_blocks_content_keys:
  "fst ` set (extract_blocks_content s) = fst ` set (find_blocks s)"
  by (simp add: extract_blocks_content_def fold_dict_set_keys)

lemma find_blocks_closed:
  "(name, content) \<in> set (find_blocks s) \<Longrightarrow>
     \<exists>t rest rest'. suffix t s \<and> match_block_open t = Some (name, rest)
       \<and> find_endblock name rest = Some (content, rest')"
proof (induction s rule: find_blocks.induct)
  case 1
  then show ?case by simp
next
  case (2 c cs)
  show ?case
  proof (cases "match_block_open (c # cs)")
    case None
    with "2.prems" have "(name, content) \<in> set (find_blocks cs)" by simp
    from "2.IH"(1) [OF None this] show ?thesis
      by (meson suffix_ConsI)
  next
    case (Some nr)
    obtain n rest where nr: "nr = (n, rest)" by (cases nr)
    show ?thesis
    proof (cases "find_endblock n rest")
      case None
      with "2.prems" Some nr have "(name, content) \<in> set (find_blocks cs)" by simp
      from "2.IH"(2) [OF Some nr [symmetric] None this] show ?thesis
        by (meson suffix_ConsI)
    next
      case found: (Some cr)
      obtain content' rest' where cr: "cr = (content', rest')" by (cases cr)
      from "2.prems" Some nr found cr
      consider "name = n \<and> content = content'" | "(name, content) \<in> set (find_blocks rest')"
        by auto
      then show ?thesis
      proof cases
        case 1
        with Some nr found cr show ?thesis
          by (metis suffix_order.refl)
      next
        case 2
        from "2.IH"(3) [OF Some nr [symmetric] found cr [symmetric] 2]
        obtain t r r' where t: "suffix t rest'" "match_block_open t = Some (name, r)"
          "find_endblock name r = Some (content, r')" by blast
        have "suffix rest' (c # cs)"
          using find_endblock_suffix [of n rest content' rest'] found cr
            match_block_open_suffix [of "c # cs" n rest] Some nr
          by (auto intro: suffix_order.trans)
        with t show ?thesis
          by (meson suffix_order.trans)
      qed
    qed
  qed
qed

lemma unclosed_not_extracted:
  assumes "\<forall>t rest. suffix t s \<and> match_block_open t = Some (name, rest)
             \<longrightarrow> find_endblock name rest = None"
  shows "name \<notin> fst ` set (extract_blocks_content s)"
proof
  assume "name \<in> fst ` set (extract_blocks_content s)"
  then obtain c where "(name, c) \<in> set (find_blocks s)"
    by (auto simp: extract_blocks_content_keys)
  from find_blocks_closed [OF this] assms show False by fastforce
qed




lemma apply_variable_mappings_modelled:
  "\<forall>m \<in> set vm. fst m \<noteq> [] \<and> CHR 0x5C \<notin> set (snd m) \<Longrightarrow>
     \<exists>r. apply_variable_mappings vm content = Inr r"
  by (induction vm content rule: apply_variable_mappings.induct) auto

lemma emit_blocks_modelled:
  assumes "\<forall>m \<in> set (variable_mappings self). fst m \<noteq> [] \<and> CHR 0x5C \<notin> set (snd m)"
  shows "\<exists>ls. emit_blocks self bs = Inr ls"
proof (induction bs)
  case Nil
  then show ?case by simp
next
  case (Cons b bs)
  obtain n c where b: "b = (n, c)" by (cases b)
  from apply_variable_mappings_modelled [OF assms]
  obtain r where "apply_variable_mappings (variable_mappings self) c = Inr r" by blast
  with Cons b show ?case by (auto simp: Let_def)
qed


section \<open>Block names of flat templates\<close>




















































section \<open>The batch\<close>

lemma interactive_template_mapping_keeps:
  "interactive_template_mapping self p = (r, self') \<Longrightarrow>
     migration_log self' = migration_log self \<and> files self' = files self
     \<and> config self' = config self \<and> variable_mappings self' = variable_mappings self
     \<and> block_mappings self' = block_mappings self"
  by (auto simp: interactive_template_mapping_def Let_def split: option.splits list.splits if_splits)

lemma extract_template_info_fails:
  "extract_template_info w self p = (Inr None, self)
   \<or> (\<exists>e. extract_template_info w self p = (Inl e, self))"
  by (cases "get_template w p")
    (auto simp: extract_template_info_def template_source_def split: error.splits)

lemma extract_template_info_loaded:
  "get_template w p = Inr template \<Longrightarrow>
     extract_template_info w self p = (Inl AttributeError, self)"
  by (simp add: extract_template_info_def template_source_def)

lemma interactive_template_mapping_skip:
  "interactive_template_mapping self p = (Inr None, self') \<longleftrightarrow>
     map_of (template_mappings self) p = None
     \<and> (\<exists>c cs. choices self = c # cs \<and> c \<noteq> 1 \<and> c \<noteq> 2 \<and> c \<noteq> 3 \<and> self' = self\<lparr>choices := cs\<rparr>)"
  by (auto simp: interactive_template_mapping_def Let_def split: option.splits list.splits if_splits)

lemma migrate_template_outcome:
  assumes "migrate_template w self p = (ok, self')"
  shows "ok = routed_away w self p \<and> migration_log self' = migration_log self
       \<and> files self' = files self"
proof (cases "should_exclude w self p")
  case (Inl e)
  with assms show ?thesis by (auto simp: migrate_template_def routed_away_def)
next
  case (Inr b)
  show ?thesis
  proof (cases b)
    case True
    with Inr assms show ?thesis by (auto simp: migrate_template_def routed_away_def)
  next
    case False
    obtain r self1 where i: "interactive_template_mapping self p = (r, self1)"
      by (cases "interactive_template_mapping self p")
    note k1 = interactive_template_mapping_keeps [OF i]
    show ?thesis
    proof (cases r)
      case (Inl e)
      with i have "\<not> routed_away w self p"
        using interactive_template_mapping_skip [of self p]
        by (auto simp: routed_away_def Inr False interactive_template_mapping_def Let_def
            split: option.splits list.splits if_splits)
      with Inl i Inr False assms k1 show ?thesis
        by (auto simp: migrate_template_def)
    next
      case r: (Inr t)
      show ?thesis
      proof (cases t)
        case None
        with r i have "routed_away w self p"
          using interactive_template_mapping_skip [of self p self1]
          by (auto simp: routed_away_def Inr False split: list.splits)
        with None r i Inr False assms k1 show ?thesis
          by (auto simp: migrate_template_def)
      next
        case (Some target)
        with r i have nr: "\<not> routed_away w self p"
          by (auto simp: routed_away_def Inr False interactive_template_mapping_def Let_def
              split: option.splits list.splits if_splits)
        from extract_template_info_fails [of w self1 p] assms Inr False i r Some k1 nr
        show ?thesis
          by (auto simp: migrate_template_def)
      qed
    qed
  qed
qed

lemma migration_loop_outcome:
  "migration_loop w auto self ps successful failed = (successful', failed', self') \<Longrightarrow>
     files self' = files self \<and> migration_log self' = migration_log self
     \<and> successful' = successful + routed_away_count w auto self ps
     \<and> successful' + failed' = successful + failed + length ps"
proof (induction ps arbitrary: self successful failed)
  case Nil
  then show ?case by simp
next
  case (Cons p ps)
  define self1 where "self1 =
    (if auto
     then self\<lparr>template_mappings := dict_set (template_mappings self) p (suggest_template_path p)\<rparr>
     else self)"
  obtain ok self2 where m: "migrate_template w self1 p = (ok, self2)"
    by (cases "migrate_template w self1 p")
  have l1: "migration_log self1 = migration_log self" "files self1 = files self"
    by (simp_all add: self1_def)
  from Cons.prems m
  have loop: "migration_loop w auto self2 ps (if ok then successful + 1 else successful)
                (if ok then failed else failed + 1) = (successful', failed', self')"
    by (cases ok) (simp_all add: self1_def [symmetric] Let_def)
  note ih = Cons.IH [OF loop]
  have rc: "routed_away_count w auto self (p # ps) =
              (if routed_away w self1 p then 1 else 0) + routed_away_count w auto self2 ps"
    using m by (simp add: self1_def [symmetric] Let_def)
  from migrate_template_outcome [OF m] ih l1 rc show ?case
    by (auto split: if_splits)
qed

lemma migrate_template_mapped:
  assumes "should_exclude w self p = Inr False"
    and "map_of (template_mappings self) p = Some target"
  shows "migrate_template w self p = (False, self)"
  using assms extract_template_info_fails [of w self p]
  by (auto simp: migrate_template_def interactive_template_mapping_def)

lemma auto_step:
  assumes "should_exclude w self p = Inr False"
  shows "migrate_template w
           (self\<lparr>template_mappings := dict_set (template_mappings self) p (suggest_template_path p)\<rparr>) p =
     (False, self\<lparr>template_mappings := dict_set (template_mappings self) p (suggest_template_path p)\<rparr>)"
proof (rule migrate_template_mapped)
  show "should_exclude w
          (self\<lparr>template_mappings := dict_set (template_mappings self) p (suggest_template_path p)\<rparr>) p
        = Inr False"
    using assms by (simp add: should_exclude_def)
  show "map_of (template_mappings
          (self\<lparr>template_mappings := dict_set (template_mappings self) p (suggest_template_path p)\<rparr>)) p
        = Some (suggest_template_path p)"
    by (simp add: map_of_dict_set)
qed

text \<open>
  C9: in a batch of three templates, none excluded, where the second fails to parse and
  the first and the third are good templates, the loop counts 2 successful and 1 failed
  and the output files of the first and the third are written. The code does not achieve
  this: for a template that jinja2 loads, \<open>_extract_template_info\<close> reads
  \<open>template.source\<close>, which raises \<open>AttributeError\<close>; the method does not catch it, and
  \<open>migrate_template\<close> turns it into \<open>False\<close>. So the loop of the automatic mode counts 0
  successful and 3 failed, writes no file and makes no log entry, and
  \<open>analyze_all_templates\<close>, which \<open>main\<close> runs before the loop, ends with the
  \<open>AttributeError\<close> at the first template. In every run of the loop, automatic or not,
  no file is written and no log entry made, and the templates counted as successful are
  the ones routed away.
\<close>

theorem C9_loaded_templates_fail:
  "(get_template w p = Inr template
      \<longrightarrow> extract_template_info w self p = (Inl AttributeError, self))
   \<and> (should_exclude w self t1 = Inr False \<and> should_exclude w self t2 = Inr False
        \<and> should_exclude w self t3 = Inr False \<and> get_template w t1 = Inr template1
        \<and> get_template w t2 = Inl TemplateError \<and> get_template w t3 = Inr template3
      \<longrightarrow> (\<exists>self'. migration_loop w True self [t1, t2, t3] 0 0 = (0, 3, self')
              \<and> files self' = files self \<and> migration_log self' = migration_log self)
          \<and> analyze_all_templates w self [t1, t2, t3] = Inl AttributeError)
   \<and> (migration_loop w auto self ps 0 0 = (successful, failed, self'')
      \<longrightarrow> files self'' = files self \<and> migration_log self'' = migration_log self
          \<and> successful = routed_away_count w auto self ps)"
proof (intro conjI impI)
  assume "get_template w p = Inr template"
  then show "extract_template_info w self p = (Inl AttributeError, self)"
    by (rule extract_template_info_loaded)
next
  assume a: "should_exclude w self t1 = Inr False \<and> should_exclude w self t2 = Inr False
        \<and> should_exclude w self t3 = Inr False \<and> get_template w t1 = Inr template1
        \<and> get_template w t2 = Inl TemplateError \<and> get_template w t3 = Inr template3"
  define s1 where "s1 = self\<lparr>template_mappings :=
    dict_set (template_mappings self) t1 (suggest_template_path t1)\<rparr>"
  define s2 where "s2 = s1\<lparr>template_mappings :=
    dict_set (template_mappings s1) t2 (suggest_template_path t2)\<rparr>"
  define s3 where "s3 = s2\<lparr>template_mappings :=
    dict_set (template_mappings s2) t3 (suggest_template_path t3)\<rparr>"
  from a have e1: "should_exclude w self t1 = Inr False" by simp
  have e2: "should_exclude w s1 t2 = Inr False"
    using a by (simp add: should_exclude_def s1_def)
  have e3: "should_exclude w s2 t3 = Inr False"
    using a by (simp add: should_exclude_def s1_def s2_def)
  have m1: "migrate_template w s1 t1 = (False, s1)"
    unfolding s1_def by (rule auto_step [OF e1])
  have m2: "migrate_template w s2 t2 = (False, s2)"
    unfolding s2_def by (rule auto_step [OF e2])
  have m3: "migrate_template w s3 t3 = (False, s3)"
    unfolding s3_def by (rule auto_step [OF e3])
  have "migration_loop w True self [t1, t2, t3] 0 0 = (0, 3, s3)"
    using m1 m2 m3 by (simp add: s1_def [symmetric] s2_def [symmetric] s3_def [symmetric] Let_def)
  moreover have "files s3 = files self" "migration_log s3 = migration_log self"
    by (simp_all add: s1_def s2_def s3_def)
  ultimately show "\<exists>self'. migration_loop w True self [t1, t2, t3] 0 0 = (0, 3, self')
              \<and> files self' = files self \<and> migration_log self' = migration_log self"
    by blast
  from a have "extract_template_info w self t1 = (Inl AttributeError, self)"
    by (simp add: extract_template_info_loaded)
  with e1 show "analyze_all_templates w self [t1, t2, t3] = Inl AttributeError"
    by simp
next
  assume "migration_loop w auto self ps 0 0 = (successful, failed, self'')"
  from migration_loop_outcome [OF this]
  show "files self'' = files self" "migration_log self'' = migration_log self"
    "successful = routed_away_count w auto self ps"
    by simp_all
qed

theorem C9_loaded_templates_fail_witness:
  "extract_template_info example_world example_migrator ''index.html''
     = (Inl AttributeError, example_migrator)
   \<and> (\<exists>self'. migration_loop example_world True example_migrator
                [''index.html'', ''broken.html'', ''admin/users.html''] 0 0 = (0, 3, self')
        \<and> files self' = Map.empty \<and> migration_log self' = [])
   \<and> analyze_all_templates example_world example_migrator
        [''index.html'', ''broken.html'', ''admin/users.html''] = Inl AttributeError
   \<and> (\<exists>self'. migration_loop example_world False (example_migrator\<lparr>choices := [1, 2, 1]\<rparr>)
                [''index.html'', ''broken.html'', ''admin/users.html''] 0 0 = (0, 3, self')
        \<and> files self' = Map.empty \<and> migration_log self' = [])"
proof -
  have ex: "should_exclude example_world example_migrator t = Inr False" if "t \<noteq> ''old_backup.html''" for t
    using that by (simp add: should_exclude_def example_world_def example_migrator_def example_config_def)
  have g: "get_template example_world t = Inr \<lparr>template_name = t, template_filename = ''templates/'' @ t\<rparr>"
    if "t \<noteq> ''broken.html''" for t
    using that by (simp add: example_world_def)
  have b: "get_template example_world ''broken.html'' = Inl TemplateError"
    by (simp add: example_world_def)
  have f: "files example_migrator = Map.empty" "migration_log example_migrator = []"
    by (simp_all add: example_migrator_def)
  note c = C9_loaded_templates_fail [where w = example_world and self = example_migrator]
  have 1: "extract_template_info example_world example_migrator ''index.html''
     = (Inl AttributeError, example_migrator)"
    using c [where p = "''index.html''", THEN conjunct1] g by simp
  have 2: "(\<exists>self'. migration_loop example_world True example_migrator
                [''index.html'', ''broken.html'', ''admin/users.html''] 0 0 = (0, 3, self')
        \<and> files self' = Map.empty \<and> migration_log self' = [])
   \<and> analyze_all_templates example_world example_migrator
        [''index.html'', ''broken.html'', ''admin/users.html''] = Inl AttributeError"
    using c [where ?t1.0 = "''index.html''" and ?t2.0 = "''broken.html''"
        and ?t3.0 = "''admin/users.html''", THEN conjunct2, THEN conjunct1] ex g b
    by (simp add: f)
  obtain s fl self' where l: "migration_loop example_world False (example_migrator\<lparr>choices := [1, 2, 1]\<rparr>)
                [''index.html'', ''broken.html'', ''admin/users.html''] 0 0 = (s, fl, self')"
    by (cases "migration_loop example_world False (example_migrator\<lparr>choices := [1, 2, 1]\<rparr>)
                [''index.html'', ''broken.html'', ''admin/users.html''] 0 0")
  have r: "routed_away_count example_world False (example_migrator\<lparr>choices := [1, 2, 1]\<rparr>)
             [''index.html'', ''broken.html'', ''admin/users.html''] = 0"
    by code_simp
  have "fst (snd (migration_loop example_world False (example_migrator\<lparr>choices := [1, 2, 1]\<rparr>)
                [''index.html'', ''broken.html'', ''admin/users.html''] 0 0)) = 3"
    by code_simp
  with l have fl: "fl = 3" by simp
  from C9_loaded_templates_fail [where w = example_world
      and self = "example_migrator\<lparr>choices := [1, 2, 1]\<rparr>" and auto = False
      and ps = "[''index.html'', ''broken.html'', ''admin/users.html'']"
      and successful = s and failed = fl and self'' = self', THEN conjunct2, THEN conjunct2] l r
  have "files self' = Map.empty \<and> migration_log self' = [] \<and> s = 0"
    by (simp add: f)
  with l fl have 3: "\<exists>self'. migration_loop example_world False (example_migrator\<lparr>choices := [1, 2, 1]\<rparr>)
                [''index.html'', ''broken.html'', ''admin/users.html''] 0 0 = (0, 3, self')
        \<and> files self' = Map.empty \<and> migration_log self' = []"
    by simp
  from 1 2 3 show ?thesis by simp
qed

text \<open>
  C10: a template whose path matches an exclusion pattern, and a template that the
  operator chooses to skip, give \<open>True\<close> without any file written or any log entry made;
  so the count of successful templates of a run (with variable mappings that the model
  covers) is the number of templates rewritten (the log entries added) plus the number of
  templates routed away.
\<close>

theorem C10_routed_away_counted_successful:
  "(should_exclude w self p = Inr True \<longrightarrow> migrate_template w self p = (True, self))
   \<and> (should_exclude w self p = Inr False \<and> map_of (template_mappings self) p = None
        \<and> choices self = c # cs \<and> c \<noteq> 1 \<and> c \<noteq> 2 \<and> c \<noteq> 3
      \<longrightarrow> migrate_template w self p = (True, self\<lparr>choices := cs\<rparr>))
   \<and> ((\<forall>m \<in> set (variable_mappings self). fst m \<noteq> [] \<and> CHR 0x5C \<notin> set (snd m))
        \<and> migration_loop w auto self ps 0 0 = (successful, failed, self')
      \<longrightarrow> length (migration_log self) \<le> length (migration_log self')
          \<and> successful = (length (migration_log self') - length (migration_log self))
                          + routed_away_count w auto self ps
          \<and> successful + failed = length ps)"
proof -
  have "migrate_template w self p = (True, self)" if "should_exclude w self p = Inr True"
    using that by (simp add: migrate_template_def)
  moreover have "migrate_template w self p = (True, self\<lparr>choices := cs\<rparr>)"
    if "should_exclude w self p = Inr False" "map_of (template_mappings self) p = None"
      "choices self = c # cs" "c \<noteq> 1" "c \<noteq> 2" "c \<noteq> 3"
    using that by (simp add: migrate_template_def interactive_template_mapping_def Let_def)
  moreover have "length (migration_log self) \<le> length (migration_log self')
      \<and> successful = (length (migration_log self') - length (migration_log self))
                      + routed_away_count w auto self ps
      \<and> successful + failed = length ps"
    if "migration_loop w auto self ps 0 0 = (successful, failed, self')"
    using migration_loop_outcome [OF that] by simp
  ultimately show ?thesis by blast
qed

theorem C10_routed_away_counted_successful_witness:
  "migrate_template example_world example_operator ''old_backup.html'' = (True, example_operator)
   \<and> migrate_template example_world (example_operator\<lparr>choices := [4]\<rparr>) ''about.html''
       = (True, example_operator\<lparr>choices := []\<rparr>)
   \<and> (\<exists>self'. migration_loop example_world False example_operator
                [''old_backup.html'', ''index.html'', ''about.html''] 0 0 = (2, 1, self')
        \<and> length (migration_log self') = 0
        \<and> routed_away_count example_world False example_operator
             [''old_backup.html'', ''index.html'', ''about.html''] = 2)"
proof -
  have a: "migrate_template example_world example_operator ''old_backup.html'' = (True, example_operator)"
    using C10_routed_away_counted_successful [of example_world example_operator "''old_backup.html''"]
    by (simp add: should_exclude_def example_world_def example_operator_def example_migrator_def
        example_config_def)
  have b: "migrate_template example_world (example_operator\<lparr>choices := [4]\<rparr>) ''about.html''
       = (True, example_operator\<lparr>choices := []\<rparr>)"
    using C10_routed_away_counted_successful [of example_world "example_operator\<lparr>choices := [4]\<rparr>"
        "''about.html''" 4 "[]"]
    by (simp add: should_exclude_def example_world_def example_operator_def example_migrator_def
        example_config_def)
  obtain s f self' where l: "migration_loop example_world False example_operator
                [''old_backup.html'', ''index.html'', ''about.html''] 0 0 = (s, f, self')"
    by (cases "migration_loop example_world False example_operator
                [''old_backup.html'', ''index.html'', ''about.html''] 0 0")
  have r: "routed_away_count example_world False example_operator
             [''old_backup.html'', ''index.html'', ''about.html''] = 2"
    by code_simp
  have "length (migration_log (snd (snd (migration_loop example_world False example_operator
                [''old_backup.html'', ''index.html'', ''about.html''] 0 0)))) = 0"
    by code_simp
  with l have n: "length (migration_log self') = 0" by simp
  have "length (migration_log example_operator) = 0"
    by (simp add: example_operator_def example_migrator_def)
  with l r n have "s = 2 \<and> f = 1"
    using C10_routed_away_counted_successful [of example_world example_operator "[]" 1 "[]" False
        "[''old_backup.html'', ''index.html'', ''about.html'']" s f self']
    by (simp add: example_operator_def example_migrator_def)
  with a b l r n show ?thesis by simp
qed

section \<open>Rewriting\<close>

text \<open>
  C1: the text that the rewrite returns is well-formed, with a close for every block open,
  in particular for a source with nested blocks. The code does not achieve this: in a
  source whose nested blocks are closed by plain \<open>endblock\<close> directives, the content of
  the outer block ends at the first close, so the open of the inner block is emitted
  inside the content and the close of the outer block is lost. The source below parses
  (two blocks); the output opens two blocks and closes one, and does not parse.
\<close>

theorem C1_nested_blocks_unbalanced:
  "parse_blocks ''{% block content %}<div>{% block inner %}x{% endblock %}</div>{% endblock %}''
     = Inr [''content'', ''inner'']
   \<and> generate_new_template example_migrator
       \<lparr>variables = [], blocks = [''content'', ''inner''], extends = None, includes' = [],
        source = ''{% block content %}<div>{% block inner %}x{% endblock %}</div>{% endblock %}''\<rparr>
       ''page.html''
     = Inr (join [CHR 0x0A]
         [''{% extends 'base.html' %}'', [],
          ''{% block content %}'', ''<div>{% block inner %}x'', ''{% endblock %}'', [],
          ''<!-- Migrated template -->'', ''<!-- Original: page.html -->'',
          ''<!-- Variables:  -->''])
   \<and> parse_blocks (join [CHR 0x0A]
         [''{% extends 'base.html' %}'', [],
          ''{% block content %}'', ''<div>{% block inner %}x'', ''{% endblock %}'', [],
          ''<!-- Migrated template -->'', ''<!-- Original: page.html -->'',
          ''<!-- Variables:  -->''])
     = Inl (Unclosed_block ''content'')"
  by code_simp




text \<open>
  C7 (as stated): for a source with a block open and no close to be located, the rewrite
  returns an error that names the block. It does not: the source below has such an open,
  and the rewrite returns a text, without the block.
\<close>

theorem C7_unmatched_block_no_error_counterexample:
  "match_block_open ''{% block content %}<p>Hello</p>'' = Some (''content'', ''<p>Hello</p>'')
   \<and> find_endblock ''content'' ''<p>Hello</p>'' = None
   \<and> generate_new_template example_migrator
       \<lparr>variables = [], blocks = [''content''], extends = None, includes' = [],
        source = ''{% block content %}<p>Hello</p>''\<rparr> ''page.html''
     = Inr (join [CHR 0x0A]
         [''{% extends 'base.html' %}'', [],
          ''<!-- Migrated template -->'', ''<!-- Original: page.html -->'',
          ''<!-- Variables:  -->''])"
  by code_simp

text \<open>
  C7 (amended): there is no rewrite error. A block name, every open directive of which
  has no close that the extraction can locate behind it, is not among the extracted
  blocks; the rewrite returns a text for every source (given variable mappings that the
  model covers); and a template for which jinja2 raises a \<open>TemplateError\<close> when it is
  loaded, as it does for a syntax error, is marked as failed without aborting the batch:
  \<open>_extract_template_info\<close> returns the empty dictionary, \<open>migrate_template\<close> returns \<open>False\<close>
  and changes nothing, and the loop goes on with the next template, one failure counted.
\<close>

theorem C7_unclosed_block_left_out:
  "((\<forall>t rest. suffix t (source info) \<and> match_block_open t = Some (name, rest)
        \<longrightarrow> find_endblock name rest = None)
      \<longrightarrow> name \<notin> fst ` set (extract_blocks_content (source info)))
   \<and> ((\<forall>m \<in> set (variable_mappings self). fst m \<noteq> [] \<and> CHR 0x5C \<notin> set (snd m))
      \<longrightarrow> (\<exists>out. generate_new_template self info p = Inr out))
   \<and> (should_exclude w self p = Inr False \<and> map_of (template_mappings self) p = Some target
        \<and> get_template w p = Inl TemplateError
      \<longrightarrow> extract_template_info w self p = (Inr None, self)
          \<and> migrate_template w self p = (False, self)
          \<and> migration_loop w False self (p # ps) successful failed
              = migration_loop w False self ps successful (failed + 1))"
proof (intro conjI impI)
  assume "\<forall>t rest. suffix t (source info) \<and> match_block_open t = Some (name, rest)
        \<longrightarrow> find_endblock name rest = None"
  then show "name \<notin> fst ` set (extract_blocks_content (source info))"
    by (rule unclosed_not_extracted)
next
  assume "\<forall>m \<in> set (variable_mappings self). fst m \<noteq> [] \<and> CHR 0x5C \<notin> set (snd m)"
  from emit_blocks_modelled [OF this]
  obtain ls where "emit_blocks self (extract_blocks_content (source info)) = Inr ls" by blast
  then show "\<exists>out. generate_new_template self info p = Inr out"
    by (simp add: generate_new_template_def Let_def)
next
  assume a: "should_exclude w self p = Inr False \<and> map_of (template_mappings self) p = Some target
        \<and> get_template w p = Inl TemplateError"
  then show "extract_template_info w self p = (Inr None, self)"
    by (simp add: extract_template_info_def)
  from a show m: "migrate_template w self p = (False, self)"
    by (simp add: migrate_template_mapped)
  then show "migration_loop w False self (p # ps) successful failed
              = migration_loop w False self ps successful (failed + 1)"
    by simp
qed

theorem C7_unclosed_block_left_out_witness:
  "''b'' \<notin> fst ` set (extract_blocks_content ''{% block a %}x{% endblock %}{% block b %}y'')
   \<and> (\<exists>out. generate_new_template example_overrides
         \<lparr>variables = [], blocks = [], extends = None, includes' = [],
          source = ''{% block a %}x{% endblock %}{% block b %}y''\<rparr> ''page.html'' = Inr out)
   \<and> extract_template_info example_world
        (example_migrator\<lparr>template_mappings := [(''broken.html'', ''pages/broken.html'')]\<rparr>)
        ''broken.html''
      = (Inr None, example_migrator\<lparr>template_mappings := [(''broken.html'', ''pages/broken.html'')]\<rparr>)
   \<and> migrate_template example_world
        (example_migrator\<lparr>template_mappings := [(''broken.html'', ''pages/broken.html'')]\<rparr>)
        ''broken.html''
      = (False, example_migrator\<lparr>template_mappings := [(''broken.html'', ''pages/broken.html'')]\<rparr>)
   \<and> migration_loop example_world False
        (example_migrator\<lparr>template_mappings := [(''broken.html'', ''pages/broken.html'')]\<rparr>)
        [''broken.html'', ''old_backup.html''] 0 0
      = migration_loop example_world False
        (example_migrator\<lparr>template_mappings := [(''broken.html'', ''pages/broken.html'')]\<rparr>)
        [''old_backup.html''] 0 1"
proof -
  have "list_all (\<lambda>t. case match_block_open t of
            None \<Rightarrow> True
          | Some (n, rest) \<Rightarrow> n = ''b'' \<longrightarrow> find_endblock n rest = None)
        (suffixes ''{% block a %}x{% endblock %}{% block b %}y'')"
    by code_simp
  then have n: "find_endblock ''b'' rest = None"
    if "suffix t ''{% block a %}x{% endblock %}{% block b %}y''"
      "match_block_open t = Some (''b'', rest)" for t rest
  proof -
    assume l: "list_all (\<lambda>t. case match_block_open t of
            None \<Rightarrow> True
          | Some (n, rest) \<Rightarrow> n = ''b'' \<longrightarrow> find_endblock n rest = None)
        (suffixes ''{% block a %}x{% endblock %}{% block b %}y'')"
    from that(1) have "t \<in> set (suffixes ''{% block a %}x{% endblock %}{% block b %}y'')"
      by (simp only: in_set_suffixes)
    with l have "case match_block_open t of
            None \<Rightarrow> True
          | Some (n, rest) \<Rightarrow> n = ''b'' \<longrightarrow> find_endblock n rest = None"
      by (simp only: list_all_iff)
    with that(2) show ?thesis by simp
  qed
  note c1 = C7_unclosed_block_left_out [where
        info = "\<lparr>variables = [], blocks = [], extends = None, includes' = [],
          source = ''{% block a %}x{% endblock %}{% block b %}y''\<rparr>"
        and name = "''b''" and self = example_overrides and p = "''page.html''"]
  note c2 = C7_unclosed_block_left_out [where w = example_world
        and self = "example_migrator\<lparr>template_mappings := [(''broken.html'', ''pages/broken.html'')]\<rparr>"
        and p = "''broken.html''" and target = "''pages/broken.html''"
        and ps = "[''old_backup.html'']" and successful = 0 and failed = 0]
  have p1: "''b'' \<notin> fst ` set (extract_blocks_content ''{% block a %}x{% endblock %}{% block b %}y'')"
  proof -
    from n have h: "\<forall>t rest. suffix t ''{% block a %}x{% endblock %}{% block b %}y''
          \<and> match_block_open t = Some (''b'', rest) \<longrightarrow> find_endblock ''b'' rest = None"
      by blast
    from c1 [THEN conjunct1]
    have "(\<forall>t rest. suffix t ''{% block a %}x{% endblock %}{% block b %}y''
          \<and> match_block_open t = Some (''b'', rest) \<longrightarrow> find_endblock ''b'' rest = None)
      \<longrightarrow> ''b'' \<notin> fst ` set (extract_blocks_content ''{% block a %}x{% endblock %}{% block b %}y'')"
      by simp
    from this h show ?thesis by (rule mp)
  qed
  have p2: "\<exists>out. generate_new_template example_overrides
         \<lparr>variables = [], blocks = [], extends = None, includes' = [],
          source = ''{% block a %}x{% endblock %}{% block b %}y''\<rparr> ''page.html'' = Inr out"
    using c1 [THEN conjunct2, THEN conjunct1]
    by (simp add: example_overrides_def example_migrator_def)
  have p3: "extract_template_info example_world
        (example_migrator\<lparr>template_mappings := [(''broken.html'', ''pages/broken.html'')]\<rparr>)
        ''broken.html''
      = (Inr None, example_migrator\<lparr>template_mappings := [(''broken.html'', ''pages/broken.html'')]\<rparr>)
   \<and> migrate_template example_world
        (example_migrator\<lparr>template_mappings := [(''broken.html'', ''pages/broken.html'')]\<rparr>)
        ''broken.html''
      = (False, example_migrator\<lparr>template_mappings := [(''broken.html'', ''pages/broken.html'')]\<rparr>)
   \<and> migration_loop example_world False
        (example_migrator\<lparr>template_mappings := [(''broken.html'', ''pages/broken.html'')]\<rparr>)
        [''broken.html'', ''old_backup.html''] 0 0
      = migration_loop example_world False
        (example_migrator\<lparr>template_mappings := [(''broken.html'', ''pages/broken.html'')]\<rparr>)
        [''old_backup.html''] 0 1"
    using c2 [THEN conjunct2, THEN conjunct2]
    by (simp add: example_migrator_def example_config_def example_world_def should_exclude_def)
  from p1 p2 p3 show ?thesis by (intro conjI) simp_all
qed

section \<open>Variable substitution\<close>

lemma concat_tokens: "concat (tokens s) = s"
  by (induction s rule: tokens.induct) auto

lemma head_dropWhile_word: "\<not> is_word_opt (head (dropWhile is_word cs))"
proof (cases "dropWhile is_word cs")
  case Nil
  show ?thesis unfolding Nil by (simp add: head_def is_word_opt_def)
next
  case (Cons x xs)
  then have "\<not> is_word x" using hd_dropWhile [of is_word cs] by auto
  then show ?thesis unfolding Cons by (simp add: head_def is_word_opt_def)
qed

lemma takeWhile_word_boundary:
  assumes "\<forall>x \<in> set u. is_word x" "\<not> is_word_opt (head r)"
  shows "takeWhile is_word (u @ r) = u" "dropWhile is_word (u @ r) = r"
  using assms by (cases r; simp add: head_def is_word_opt_def)+

lemma word_here_start:
  assumes "is_identifier old" "is_word c" "\<not> is_word_opt prev"
  shows "word_here old prev (c # cs) \<longleftrightarrow> old = c # takeWhile is_word cs"
proof
  assume w: "word_here old prev (c # cs)"
  then obtain o' rest where o: "old = c # o'" "cs = o' @ rest"
    by (cases old) (auto simp: word_here_def prefix_def)
  from assms(1) o have a: "\<forall>x \<in> set o'. is_word x" "is_word (last old)"
    by (auto simp: is_identifier_def list_all_iff)
  from w o a(2) have "\<not> is_word_opt (head rest)"
    by (simp add: word_here_def boundary_def is_word_opt_def)
  with a(1) have "takeWhile is_word (o' @ rest) = o'"
    by (rule takeWhile_word_boundary)
  with o show "old = c # takeWhile is_word cs"
    by simp
next
  assume o: "old = c # takeWhile is_word cs"
  have "is_word (last old)"
    using assms(1) by (auto simp: is_identifier_def list_all_iff)
  moreover have "prefix old (c # cs)"
    unfolding o by (simp add: prefix_def) (metis takeWhile_dropWhile_id)
  moreover have "drop (length old) (c # cs) = dropWhile is_word cs"
    unfolding o by (simp add: dropWhile_eq_drop)
  ultimately show "word_here old prev (c # cs)"
    using assms(2,3) head_dropWhile_word [of cs]
    by (simp add: word_here_def boundary_def is_word_opt_def head_def o)
qed

lemma word_here_inside:
  assumes "is_identifier old" "is_word_opt prev" "is_word c"
  shows "\<not> word_here old prev (c # cs)"
  using assms by (simp add: word_here_def boundary_def is_word_opt_def head_def)

lemma word_here_other:
  assumes "is_identifier old" "\<not> is_word c"
  shows "\<not> word_here old prev (c # cs)"
  using assms by (cases old) (auto simp: word_here_def is_identifier_def)

lemma re_sub_inside_word:
  assumes "is_identifier old"
  shows "\<forall>x \<in> set u. is_word x \<Longrightarrow> is_word_opt prev \<Longrightarrow>
     re_sub (pattern_simple old) new prev (u @ r)
       = u @ re_sub (pattern_simple old) new (if u = [] then prev else Some (last u)) r"
proof (induction u arbitrary: prev)
  case Nil
  then show ?case by simp
next
  case (Cons x u)
  have "pattern_simple old prev (x # u @ r) = None"
    using word_here_inside [OF assms Cons.prems(2), of x] Cons.prems(1)
    by (simp add: pattern_simple_def)
  moreover have "re_sub (pattern_simple old) new (Some x) (u @ r)
       = u @ re_sub (pattern_simple old) new (if u = [] then Some x else Some (last u)) r"
    using Cons.IH [of "Some x"] Cons.prems by (simp add: is_word_opt_def)
  ultimately show ?case by simp
qed

lemma rename_same: "rename (old, new) old = new"
  by (simp add: rename_def)

lemma rename_other: "t \<noteq> old \<Longrightarrow> rename (old, new) t = t"
  by (simp add: rename_def)

lemma non_word_token_kept:
  assumes "is_identifier old" "\<not> is_word c"
  shows "rename (old, new) [c] = [c]"
  using assms by (auto simp: rename_def is_identifier_def)

lemma re_sub_simple_tokens:
  assumes "is_identifier old"
  shows "is_word_opt prev \<longrightarrow> \<not> is_word_opt (head s) \<Longrightarrow>
     re_sub (pattern_simple old) new prev s = concat (map (rename (old, new)) (tokens s))"
proof (induction s arbitrary: prev rule: tokens.induct)
  case 1
  then show ?case by simp
next
  case (2 c cs)
  show ?case
  proof (cases "is_word c")
    case False
    have "pattern_simple old prev (c # cs) = None"
      using word_here_other [OF assms False] by (simp add: pattern_simple_def)
    moreover have "re_sub (pattern_simple old) new (Some c) cs
        = concat (map (rename (old, new)) (tokens cs))"
      using "2.IH"(2) [OF False, of "Some c"] False by (simp add: is_word_opt_def)
    ultimately show ?thesis
      using False non_word_token_kept [OF assms False] by simp
  next
    case True
    define u where "u = takeWhile is_word cs"
    define r where "r = dropWhile is_word cs"
    have cs: "cs = u @ r" by (simp add: u_def r_def)
    have u: "\<forall>x \<in> set u. is_word x"
      by (auto simp: u_def dest: set_takeWhileD)
    have r: "\<not> is_word_opt (head r)"
      unfolding r_def by (rule head_dropWhile_word)
    from True "2.prems" have p: "\<not> is_word_opt prev"
      by (simp add: head_def is_word_opt_def)
    have ih: "re_sub (pattern_simple old) new q r = concat (map (rename (old, new)) (tokens r))" for q
      using "2.IH"(1) [OF True, of q] r by (simp add: r_def)
    show ?thesis
    proof (cases "old = c # u")
      case same: True
      then have "word_here old prev (c # cs)"
        using word_here_start [OF assms True p, of cs] by (simp add: u_def)
      then have "pattern_simple old prev (c # cs) = Some (Suc (length u))"
        by (simp add: pattern_simple_def same)
      moreover have "drop (length u) cs = r"
        by (simp add: cs)
      ultimately show ?thesis
        using True ih by (simp add: u_def [symmetric] r_def [symmetric] same rename_same)
    next
      case other: False
      then have "\<not> word_here old prev (c # cs)"
        using word_here_start [OF assms True p, of cs] by (simp add: u_def)
      then have "pattern_simple old prev (c # cs) = None"
        by (simp add: pattern_simple_def)
      moreover have "re_sub (pattern_simple old) new (Some c) (u @ r)
          = u @ re_sub (pattern_simple old) new (if u = [] then Some c else Some (last u)) r"
        using re_sub_inside_word [OF assms u, of "Some c" new r] True
        by (simp add: is_word_opt_def)
      ultimately show ?thesis
        using True ih rename_other [of "c # u" old new] other
        by (simp add: u_def [symmetric] r_def [symmetric] cs [symmetric])
    qed
  qed
qed

lemma last_dropWhile: "dropWhile P xs \<noteq> [] \<Longrightarrow> last (dropWhile P xs) = last xs"
  by (metis last_appendR takeWhile_dropWhile_id)

lemma all_word_runs:
  assumes "\<forall>x \<in> set u. is_word x"
  shows "takeWhile is_word u = u" "dropWhile is_word u = []"
  using assms by simp_all

lemma tokens_word:
  assumes "is_identifier v"
  shows "tokens v = [v]"
proof (cases v)
  case Nil
  with assms show ?thesis by (simp add: is_identifier_def)
next
  case (Cons c u)
  with assms have "is_word c" "\<forall>x \<in> set u. is_word x"
    by (simp_all add: is_identifier_def list_all_iff)
  then show ?thesis
    unfolding Cons by (simp add: all_word_runs)
qed

lemma tokens_append:
  "(a \<noteq> [] \<Longrightarrow> b \<noteq> [] \<Longrightarrow> is_word (last a) \<Longrightarrow> \<not> is_word (hd b)) \<Longrightarrow>
     tokens (a @ b) = tokens a @ tokens b"
proof (induction a rule: tokens.induct)
  case 1
  then show ?case by simp
next
  case (2 c cs)
  show ?case
  proof (cases "is_word c")
    case False
    have "tokens (cs @ b) = tokens cs @ tokens b"
      using "2.IH"(2) [OF False] "2.prems" by (cases "cs = []") auto
    with False show ?thesis by simp
  next
    case True
    show ?thesis
    proof (cases "\<forall>x \<in> set cs. is_word x")
      case all: True
      with True have "is_word (last (c # cs))" by simp
      with "2.prems" have "\<not> is_word_opt (head b)"
        by (cases b) (auto simp: head_def is_word_opt_def)
      with all have "takeWhile is_word (cs @ b) = cs" "dropWhile is_word (cs @ b) = b"
        by (rule takeWhile_word_boundary)+
      moreover from all have "takeWhile is_word cs = cs" "dropWhile is_word cs = []"
        by (rule all_word_runs)+
      ultimately show ?thesis using True by (simp del: takeWhile_eq_all_conv dropWhile_eq_Nil_conv)
    next
      case False
      then obtain x where x: "x \<in> set cs" "\<not> is_word x" by blast
      then have t: "takeWhile is_word (cs @ b) = takeWhile is_word cs"
        and d: "dropWhile is_word (cs @ b) = dropWhile is_word cs @ b"
        by (simp_all add: takeWhile_append1 dropWhile_append1)
      from x have n: "dropWhile is_word cs \<noteq> []"
        by (auto simp: dropWhile_eq_Nil_conv)
      then have "last (dropWhile is_word cs) = last (c # cs)"
        using last_dropWhile [of is_word cs] by auto
      with "2.prems" n
      have "tokens (dropWhile is_word cs @ b) = tokens (dropWhile is_word cs) @ tokens b"
        using "2.IH"(1) [OF True] by auto
      with True t d show ?thesis by simp
    qed
  qed
qed

lemma word_occurs_token:
  assumes "is_identifier old" "s = pre @ old @ post"
    and "pre = [] \<or> \<not> is_word (last pre)"
    and "post = [] \<or> \<not> is_word (hd post)"
  shows "old \<in> set (tokens s)"
proof -
  have "tokens (old @ post) = tokens old @ tokens post"
    using assms(4) by (intro tokens_append) auto
  moreover have "tokens (pre @ (old @ post)) = tokens pre @ tokens (old @ post)"
    using assms(3) by (intro tokens_append) auto
  ultimately show ?thesis
    using assms(1,2) by (simp add: tokens_word)
qed

lemma tokens_hd_non_word:
  assumes "\<And>c. \<not> is_word c \<Longrightarrow> f [c] = [c]" "\<not> is_word_opt (head r)"
  shows "concat (map f (tokens r)) = [] \<or> \<not> is_word (hd (concat (map f (tokens r))))"
proof (cases r)
  case Nil
  then show ?thesis by simp
next
  case (Cons x xs)
  with assms(2) have "\<not> is_word x" by (simp add: head_def is_word_opt_def)
  with Cons assms(1) show ?thesis by simp
qed

lemma tokens_renamed:
  assumes "\<And>t. is_identifier t \<Longrightarrow> is_identifier (f t)"
    and "\<And>c. \<not> is_word c \<Longrightarrow> f [c] = [c]"
  shows "tokens (concat (map f (tokens s))) = map f (tokens s)"
proof (induction s rule: tokens.induct)
  case 1
  then show ?case by simp
next
  case (2 c cs)
  show ?case
  proof (cases "is_word c")
    case False
    with "2.IH"(2) assms(2) show ?thesis by simp
  next
    case True
    define w where "w = c # takeWhile is_word cs"
    define r where "r = dropWhile is_word cs"
    define R where "R = concat (map f (tokens r))"
    have "is_identifier w"
      using True by (auto simp: w_def is_identifier_def list_all_iff dest: set_takeWhileD)
    then have fw: "is_identifier (f w)" by (rule assms(1))
    have "R = [] \<or> \<not> is_word (hd R)"
      unfolding R_def r_def using assms(2) head_dropWhile_word by (rule tokens_hd_non_word)
    then have "tokens (f w @ R) = tokens (f w) @ tokens R"
      by (intro tokens_append) auto
    moreover have "tokens R = map f (tokens r)"
      using "2.IH"(1) [OF True] by (simp add: R_def r_def)
    ultimately show ?thesis
      using True fw by (simp add: w_def [symmetric] r_def [symmetric] R_def [symmetric] tokens_word)
  qed
qed

lemma re_sub_no_match:
  "(\<And>q u. suffix u s \<Longrightarrow> pattern q u = None) \<Longrightarrow> re_sub pattern repl prev s = s"
proof (induction s arbitrary: prev)
  case Nil
  then show ?case by simp
next
  case (Cons c cs)
  have "pattern prev (c # cs) = None"
    by (rule Cons.prems) simp
  moreover have "re_sub pattern repl (Some c) cs = cs"
    by (rule Cons.IH) (simp add: Cons.prems suffix_ConsI)
  ultimately show ?case by simp
qed

lemma braces_backtrack_attempt:
  "braces_backtrack old rest K = Some n \<Longrightarrow> \<exists>k \<le> K. braces_attempt old rest k = Some n"
proof (induction K)
  case 0
  then show ?case by simp
next
  case (Suc K)
  then show ?case
    by (cases "braces_attempt old rest (Suc K)") (auto intro: le_SucI)
qed

lemma control_backtrack_attempt:
  "control_backtrack old rest K = Some n \<Longrightarrow> \<exists>k \<le> K. control_attempt old rest k = Some n"
proof (induction K)
  case 0
  then show ?case by simp
next
  case (Suc K)
  then show ?case
    by (cases "control_attempt old rest (Suc K)") (auto intro: le_SucI)
qed

lemma non_word_chars:
  "\<not> is_word CHR ''{''" "\<not> is_word CHR ''}''" "\<not> is_word CHR '' ''" "\<not> is_word CHR ''%''"
  "\<not> is_word CHR 0x5C"
  by (simp_all add: is_word_def)

lemma last_take:
  assumes "0 < k" "k \<le> length xs"
  shows "take k xs \<noteq> []" "last (take k xs) = xs ! (k - 1)"
proof -
  from assms show "take k xs \<noteq> []" by (cases xs) auto
  then show "last (take k xs) = xs ! (k - 1)"
    using assms by (simp add: last_conv_nth min_def)
qed

lemma take_spaces:
  assumes "k \<le> length (takeWhile P xs)" "x \<in> set (take k xs)"
  shows "P x"
proof -
  have "set (take k xs) \<subseteq> set (takeWhile P xs)"
    using assms(1) by (metis set_take_subset_set_take takeWhile_eq_take)
  with assms(2) show ?thesis by (auto dest: set_takeWhileD)
qed

lemma hd_before_brace:
  assumes "prefix ''}'' (drop (length (takeWhile is_space tail)) tail)"
  shows "tail \<noteq> [] \<and> \<not> is_word (hd tail)"
proof (cases tail)
  case Nil
  with assms show ?thesis by simp
next
  case (Cons x xs)
  show ?thesis
  proof (cases "is_space x")
    case True
    with Cons show ?thesis by (simp add: space_not_word)
  next
    case False
    with Cons assms show ?thesis by (auto simp: non_word_chars)
  qed
qed

lemma pattern_braces_word:
  assumes "pattern_braces old q u = Some n"
  shows "\<exists>pre post. u = pre @ old @ post \<and> pre \<noteq> [] \<and> \<not> is_word (last pre)
           \<and> (post = [] \<or> \<not> is_word (hd post))"
proof -
  define rest where "rest = drop 1 u"
  define K where "K = length (takeWhile is_space rest)"
  from assms have u: "u = CHR ''{'' # rest" and b: "braces_backtrack old rest K = Some n"
    by (auto simp: pattern_braces_def rest_def K_def prefix_def split: if_splits)
  from braces_backtrack_attempt [OF b]
  obtain k where k: "k \<le> K" "braces_attempt old rest k = Some n" by blast
  define tail where "tail = drop (k + length old) rest"
  from k(2) have p: "prefix old (drop k rest)"
    and e: "prefix ''}'' (drop (length (takeWhile is_space tail)) tail)"
    by (auto simp: braces_attempt_def Let_def tail_def split: if_splits)
  from p obtain zs where zs: "drop k rest = old @ zs"
    by (auto simp: prefix_def)
  then have "drop (length old) (drop k rest) = zs" by simp
  then have "zs = tail" by (simp add: tail_def add.commute)
  with zs have "drop k rest = old @ tail" by simp
  then have r: "rest = take k rest @ old @ tail"
    using append_take_drop_id [of k rest] by simp
  have "\<forall>x \<in> set (take k rest). is_space x"
    using k(1) take_spaces [of k is_space rest] by (simp add: K_def)
  then have "\<forall>x \<in> set (CHR ''{'' # take k rest). \<not> is_word x"
    by (auto simp: non_word_chars space_not_word)
  then have "\<not> is_word (last (CHR ''{'' # take k rest))"
    using last_in_set [of "CHR ''{'' # take k rest"] by blast
  moreover have "u = (CHR ''{'' # take k rest) @ old @ tail"
    using u r by simp
  ultimately show ?thesis
    using hd_before_brace [OF e]
    by (intro exI [of _ "CHR ''{'' # take k rest"] exI [of _ tail]) simp
qed

lemma pattern_control_word:
  assumes "is_identifier old" "pattern_control old q u = Some n"
  shows "\<exists>pre post. u = pre @ old @ post \<and> pre \<noteq> [] \<and> \<not> is_word (last pre)
           \<and> (post = [] \<or> \<not> is_word (hd post))"
proof -
  define rest where "rest = drop 3 u"
  define K where "K = length (takeWhile (\<lambda>c. c \<noteq> CHR ''%'') rest)"
  from assms(2) have u: "u = ''{% '' @ rest" and b: "control_backtrack old rest K = Some n"
    by (auto simp: pattern_control_def rest_def K_def prefix_def split: if_splits)
  from control_backtrack_attempt [OF b]
  obtain k where k: "k \<le> K" "control_attempt old rest k = Some n" by blast
  define prev where "prev = (if k = 0 then CHR '' '' else rest ! (k - 1))"
  define tail where "tail = drop (k + length old) rest"
  from k(2) have w: "word_here old (Some prev) (drop k rest)"
    by (auto simp: control_attempt_def Let_def prev_def split: if_splits)
  then have p: "prefix old (drop k rest)" by (simp add: word_here_def)
  then obtain zs where zs: "drop k rest = old @ zs"
    by (auto simp: prefix_def)
  then have "drop (length old) (drop k rest) = zs" by simp
  then have "zs = tail" by (simp add: tail_def add.commute)
  with zs have d: "drop k rest = old @ tail" by simp
  then have r: "rest = take k rest @ old @ tail"
    using append_take_drop_id [of k rest] by simp
  from assms(1) have o: "is_word (hd old)" "is_word (last old)" "old \<noteq> []"
    by (auto simp: is_identifier_def list_all_iff)
  from w d o have "\<not> is_word prev"
    by (cases old) (auto simp: word_here_def boundary_def is_word_opt_def head_def)
  moreover have "K \<le> length rest"
    by (simp add: K_def length_takeWhile_le)
  with k(1) have "last (''{% '' @ take k rest) = prev"
    using last_take [of k rest] by (cases "k = 0") (simp_all add: prev_def)
  moreover from w d o have "tail = [] \<or> \<not> is_word (hd tail)"
    by (cases tail) (auto simp: word_here_def boundary_def is_word_opt_def head_def)
  moreover have "u = (''{% '' @ take k rest) @ old @ tail"
    using u r by simp
  ultimately show ?thesis
    by (intro exI [of _ "''{% '' @ take k rest"] exI [of _ tail]) simp
qed

lemma no_match_without_token:
  assumes "is_identifier old" "old \<notin> set (tokens s)" "suffix u s"
  shows "pattern_braces old q u = None" "pattern_control old q u = None"
proof -
  from assms(3) obtain t where s: "s = t @ u" by (auto simp: suffix_def)
  have False
    if "u = pre @ old @ post" "pre \<noteq> []" "\<not> is_word (last pre)" "post = [] \<or> \<not> is_word (hd post)"
    for pre post
  proof -
    from that(1) s have "s = (t @ pre) @ old @ post" by simp
    moreover from that(2,3) have "t @ pre = [] \<or> \<not> is_word (last (t @ pre))" by simp
    ultimately have "old \<in> set (tokens s)"
      using assms(1) that(4) word_occurs_token [of old s "t @ pre" post] by simp
    with assms(2) show False by simp
  qed
  then show "pattern_braces old q u = None" "pattern_control old q u = None"
    using pattern_braces_word [of old q u] pattern_control_word [OF assms(1), of q u]
    by (meson not_Some_eq)+
qed

lemma rename_identifier:
  assumes "is_identifier new" "is_identifier t"
  shows "is_identifier (rename (old, new) t)"
  using assms by (simp add: rename_def)

lemma apply_variable_mapping_tokens:
  assumes "is_identifier old" "is_identifier new" "old \<noteq> new"
  shows "apply_variable_mapping (old, new) s = concat (map (rename (old, new)) (tokens s))"
proof -
  define r where "r = concat (map (rename (old, new)) (tokens s))"
  have 1: "re_sub (pattern_simple old) new None s = r"
    unfolding r_def by (rule re_sub_simple_tokens [OF assms(1)]) (simp add: is_word_opt_def)
  have "tokens r = map (rename (old, new)) (tokens s)"
    unfolding r_def
    by (rule tokens_renamed) (simp_all add: rename_identifier assms non_word_token_kept)
  moreover have "rename (old, new) t \<noteq> old" for t
    using assms(3) by (auto simp: rename_def)
  ultimately have n: "old \<notin> set (tokens r)" by (auto dest: sym)
  have 2: "re_sub (pattern_braces old) new None r = r"
    by (rule re_sub_no_match) (rule no_match_without_token [OF assms(1) n])
  have 3: "re_sub (pattern_control old) new None r = r"
    by (rule re_sub_no_match) (rule no_match_without_token [OF assms(1) n])
  show ?thesis
    by (simp add: apply_variable_mapping_def 1 2 3 r_def [symmetric])
qed

lemma rename_all_Cons: "rename_all (m # ms) t = rename_all ms (rename m t)"
  by (simp add: rename_all_def)

lemma apply_variable_mappings_tokens:
  "\<forall>m \<in> set ms. is_identifier (fst m) \<and> is_identifier (snd m) \<and> fst m \<noteq> snd m \<Longrightarrow>
     apply_variable_mappings ms s = Inr (concat (map (rename_all ms) (tokens s)))"
proof (induction ms arbitrary: s)
  case Nil
  then show ?case by (simp add: rename_all_def concat_tokens)
next
  case (Cons m ms)
  obtain old new where m: "m = (old, new)" by (cases m)
  with Cons.prems have i: "is_identifier old" "is_identifier new" "old \<noteq> new" by auto
  then have "old \<noteq> []" "CHR 0x5C \<notin> set new"
    by (auto simp: is_identifier_def list_all_iff non_word_chars)
  moreover have "tokens (concat (map (rename (old, new)) (tokens s)))
      = map (rename (old, new)) (tokens s)"
    by (rule tokens_renamed) (simp_all add: rename_identifier i non_word_token_kept)
  ultimately show ?case
    using Cons.IH [of "concat (map (rename (old, new)) (tokens s))"] Cons.prems
    by (simp add: m apply_variable_mapping_tokens [OF i] rename_all_Cons comp_def)
qed

lemma dict_get_cases: "dict_get d k k = k \<or> (k, dict_get d k k) \<in> set d"
  by (auto simp: dict_get_def split: option.splits dest: map_of_SomeD)

lemma rename_all_unmapped: "t \<notin> fst ` set ms \<Longrightarrow> rename_all ms t = t"
  by (induction ms) (auto simp: rename_all_Cons rename_def rename_all_def)

lemma emit_blocks_tokens:
  assumes "\<forall>m \<in> set (variable_mappings self).
             is_identifier (fst m) \<and> is_identifier (snd m) \<and> fst m \<noteq> snd m"
  shows "emit_blocks self bs =
     Inr (concat (map (\<lambda>(n, c).
            [''{% block '' @ dict_get (block_mappings self) n n @ '' %}'',
             concat (map (rename_all (variable_mappings self)) (tokens c)),
             ''{% endblock %}'', []]) bs))"
proof (induction bs)
  case Nil
  then show ?case by simp
next
  case (Cons b bs)
  obtain n c where b: "b = (n, c)" by (cases b)
  show ?case
    by (simp add: b Cons apply_variable_mappings_tokens [OF assms])
qed

lemma rename_all_single: "rename_all [(a, b)] = (\<lambda>t. if t = a then b else t)"
  by (rule ext) (simp add: rename_all_def rename_def)

lemma user_name_identifiers:
  "is_identifier ''user_name''" "is_identifier ''username''"
  by (simp_all add: is_identifier_def is_word_def)

text \<open>
  C8: with the single mapping of \<open>user_name\<close> to \<open>username\<close>, the content
  \<open>Hello {{ user_name }}, role: {{ role }}\<close> becomes \<open>Hello {{ username }}, role: {{ role }}\<close>;
  in every content, exactly the tokens \<open>user_name\<close> are replaced and every other token is
  kept, so that a longer identifier such as \<open>user_name_full\<close>, which is one token, is never
  altered.
\<close>

theorem C8_user_name_substitution:
  "apply_variable_mappings [(''user_name'', ''username'')] ''Hello {{ user_name }}, role: {{ role }}''
     = Inr ''Hello {{ username }}, role: {{ role }}''
   \<and> apply_variable_mappings [(''user_name'', ''username'')] content
     = Inr (concat (map (\<lambda>t. if t = ''user_name'' then ''username'' else t) (tokens content)))
   \<and> concat (tokens content) = content
   \<and> tokens ''{{ user_name_full }}'' = [''{'', ''{'', '' '', ''user_name_full'', '' '', ''}'', ''}'']"
proof -
  have "apply_variable_mappings [(''user_name'', ''username'')] ''Hello {{ user_name }}, role: {{ role }}''
     = Inr ''Hello {{ username }}, role: {{ role }}''"
    by code_simp
  moreover have "apply_variable_mappings [(''user_name'', ''username'')] content
     = Inr (concat (map (\<lambda>t. if t = ''user_name'' then ''username'' else t) (tokens content)))"
    using apply_variable_mappings_tokens [of "[(''user_name'', ''username'')]" content]
    by (simp add: user_name_identifiers rename_all_single)
  moreover have "tokens ''{{ user_name_full }}'' = [''{'', ''{'', '' '', ''user_name_full'', '' '', ''}'', ''}'']"
    by code_simp
  ultimately show ?thesis by (simp add: concat_tokens)
qed

theorem C8_user_name_substitution_witness:
  "apply_variable_mappings [(''user_name'', ''username'')] ''{{ user_name_full }} and {{ user_name }}''
     = Inr ''{{ user_name_full }} and {{ username }}''"
proof -
  have "tokens ''{{ user_name_full }} and {{ user_name }}''
      = [''{'', ''{'', '' '', ''user_name_full'', '' '', ''}'', ''}'', '' '', ''and'', '' '',
         ''{'', ''{'', '' '', ''user_name'', '' '', ''}'', ''}'']"
    by code_simp
  then show ?thesis
    using C8_user_name_substitution [of "''{{ user_name_full }} and {{ user_name }}''"]
    by simp
qed

text \<open>
  C4 (as stated): every block name in the rewritten text is the original name of the
  block or the value that the block mapping gives it. It is not so: the substitution of
  variables is a substitution of words in the content of a block, and the content holds
  the directives of a nested block; a nested block named as a mapped variable is renamed
  with it, to a name that is neither its own nor in the block mapping.
\<close>

theorem C4_nested_block_renamed_counterexample:
  "block_mappings example_renaming = []
   \<and> parse_blocks
        ''{% block content %}{% block user_name %}{{ user_name }}{% endblock user_name %}{% endblock content %}''
      = Inr [''content'', ''user_name'']
   \<and> generate_new_template example_renaming
        \<lparr>variables = [''user_name''], blocks = [''content'', ''user_name''], extends = None,
         includes' = [],
         source = ''{% block content %}{% block user_name %}{{ user_name }}{% endblock user_name %}{% endblock content %}''\<rparr>
        ''page.html''
      = Inr (join [CHR 0x0A]
          [''{% extends 'base.html' %}'', [],
           ''{% block content %}'',
           ''{% block username %}{{ username }}{% endblock username %}'',
           ''{% endblock %}'', [],
           ''<!-- Migrated template -->'', ''<!-- Original: page.html -->'',
           ''<!-- Variables: user_name -->'',
           ''<!-- Variable mappings: {'user_name': 'username'} -->''])
   \<and> parse_blocks (join [CHR 0x0A]
          [''{% extends 'base.html' %}'', [],
           ''{% block content %}'',
           ''{% block username %}{{ username }}{% endblock username %}'',
           ''{% endblock %}'', [],
           ''<!-- Migrated template -->'', ''<!-- Original: page.html -->'',
           ''<!-- Variables: user_name -->'',
           ''<!-- Variable mappings: {'user_name': 'username'} -->''])
      = Inr [''content'', ''username'']"
  by code_simp

text \<open>
  The third pattern replaces the whole directive by the new name. After the first pattern
  it only finds a directive when the new name holds the old name as a word, which no
  identifier does; then the other variables of the directive are lost.
\<close>

lemma control_pattern_replaces_directive:
  "apply_variable_mappings [(''user'', ''ctx.user'')] ''{% if user and role %}hi{% endif %}''
     = Inr ''ctx.userhi{% endif %}''"
  by code_simp

text \<open>
  C4 (amended): with variable mappings whose old and new names are identifiers and differ,
  the rewritten text is the extends line (if a base template is set), then for every
  extracted block a block directive under the original name or, if the block mapping has
  one, the value mapped to it, the content of the block with every token renamed by the
  mappings in turn, and the close; then the provenance lines. A token that is no old name
  of the variable mappings is kept as it is; the tokens of a content make up the content.
\<close>

theorem C4_names_mapped_words_renamed:
  assumes "\<forall>m \<in> set (variable_mappings self).
             is_identifier (fst m) \<and> is_identifier (snd m) \<and> fst m \<noteq> snd m"
  shows "generate_new_template self info p =
     Inr (join [CHR 0x0A]
       ((if new_base_template (config self) \<noteq> []
         then [''{% extends '' @ [CHR 0x27] @ new_base_template (config self) @ [CHR 0x27] @ '' %}'', []]
         else [])
        @ concat (map (\<lambda>(n, c).
            [''{% block '' @ dict_get (block_mappings self) n n @ '' %}'',
             concat (map (rename_all (variable_mappings self)) (tokens c)),
             ''{% endblock %}'', []]) (extract_blocks_content (source info)))
        @ [''<!-- Migrated template -->'', ''<!-- Original: '' @ p @ '' -->'',
           ''<!-- Variables: '' @ join '', '' (variables info) @ '' -->'']
        @ (if variable_mappings self \<noteq> []
           then [''<!-- Variable mappings: '' @ repr_dict (variable_mappings self) @ '' -->'']
           else [])))
   \<and> (dict_get (block_mappings self) n n = n
        \<or> (n, dict_get (block_mappings self) n n) \<in> set (block_mappings self))
   \<and> (t \<notin> fst ` set (variable_mappings self) \<longrightarrow> rename_all (variable_mappings self) t = t)
   \<and> concat (tokens c) = c"
  using assms
  by (simp add: generate_new_template_def emit_blocks_tokens dict_get_cases rename_all_unmapped
      concat_tokens Let_def)

theorem C4_names_mapped_words_renamed_witness:
  "generate_new_template (example_renaming\<lparr>block_mappings := [(''content'', ''main_content'')]\<rparr>)
     \<lparr>variables = [''user_name'', ''role''], blocks = [''content''], extends = None, includes' = [],
      source = ''{% block content %}Hello {{ user_name }}, {{ user_name_full }}, {{ role }}{% endblock %}''\<rparr>
     ''page.html''
   = Inr (join [CHR 0x0A]
       [''{% extends 'base.html' %}'', [],
        ''{% block main_content %}'', ''Hello {{ username }}, {{ user_name_full }}, {{ role }}'',
        ''{% endblock %}'', [],
        ''<!-- Migrated template -->'', ''<!-- Original: page.html -->'',
        ''<!-- Variables: user_name, role -->'',
        ''<!-- Variable mappings: {'user_name': 'username'} -->''])"
proof -
  have e: "extract_blocks_content
      ''{% block content %}Hello {{ user_name }}, {{ user_name_full }}, {{ role }}{% endblock %}''
      = [(''content'', ''Hello {{ user_name }}, {{ user_name_full }}, {{ role }}'')]"
    by code_simp
  have t: "concat (map (\<lambda>t. if t = ''user_name'' then ''username'' else t)
        (tokens ''Hello {{ user_name }}, {{ user_name_full }}, {{ role }}''))
      = ''Hello {{ username }}, {{ user_name_full }}, {{ role }}''"
    by code_simp
  have r: "repr_dict [(''user_name'', ''username'')] = ''{'user_name': 'username'}''"
    by code_simp
  have h: "\<forall>m \<in> set (variable_mappings
        (example_renaming\<lparr>block_mappings := [(''content'', ''main_content'')]\<rparr>)).
      is_identifier (fst m) \<and> is_identifier (snd m) \<and> fst m \<noteq> snd m"
    by (simp add: example_renaming_def user_name_identifiers)
  show ?thesis
    using C4_names_mapped_words_renamed [OF h, THEN conjunct1, of
        "\<lparr>variables = [''user_name'', ''role''], blocks = [''content''], extends = None,
          includes' = [],
          source = ''{% block content %}Hello {{ user_name }}, {{ user_name_full }}, {{ role }}{% endblock %}''\<rparr>"
        "''page.html''"]
    by (simp add: example_renaming_def example_migrator_def example_config_def
        rename_all_single e t r dict_get_def del: tokens.simps)
qed

end
